theory Spec2Isabelle
  imports
    Complex_Main
    "HOL-Library.Word"
    "HOL-Library.Signed_Division"
    "HOL-Library.Sublist"
    "HOL-Library.AList"
    "HOL-Library.Char_ord"
    "HOL-Library.List_Lexorder"
    "HOL-Library.Multiset"
begin

section \<open>The updater: a shallow embedding of updater.go\<close>

text \<open>
  The program fetches the artifact list of a GitHub repository, picks an artifact,
  downloads its zip archive to \<^verbatim>\<open>dist.zip\<close>, empties (or creates) a directory, unpacks the
  archive into it and removes the archive.  Every function of \<^verbatim>\<open>updater.go\<close> is translated
  below under its own name.  What the program reaches through the Go standard library
  (file system, HTTP, JSON and zip decoding) is modelled as an explicit \<open>world\<close> that the
  functions take and return.
\<close>

subsection \<open>Values: errors, artifacts, the catalogue\<close>

text \<open>Go's \<^verbatim>\<open>int\<close> is 64 bits wide on every platform where the constant
  \<^verbatim>\<open>1024*1024*1024*1024\<close> of \<^verbatim>\<open>Size\<close> compiles.\<close>

type_synonym go_int = "64 word"

type_synonym bytes = string

datatype errno = ENOENT | ENOTDIR | EEXIST | EISDIR | ENOTEMPTY | EACCES | EIO

text \<open>A Go \<^verbatim>\<open>error\<close> value.  \<open>ErrorString\<close> is what \<^verbatim>\<open>errors.New\<close> and \<^verbatim>\<open>fmt.Errorf\<close> build
  from the message; \<open>StatusError c\<close> stands for
  \<^verbatim>\<open>fmt.Errorf("received non 200 response code of %d", c)\<close>; \<open>PathError\<close> is \<^verbatim>\<open>*os.PathError\<close>
  (operation, path as passed, cause); \<open>LibError\<close> is any other error of a library
  (transport, JSON, zip format), known by its message only.\<close>

datatype error =
    ErrorString string
  | StatusError int
  | PathError string string errno
  | LibError string

record artifact =
  ID :: go_int
  NodeID :: string
  Name :: string
  SizeInBytes :: go_int
  URL :: string
  ArchiveDownloadURL :: string
  Expired :: bool
  CreatedAt :: string
  UpdatedAt :: string
  ExpiresAt :: string

text \<open>The zero value of \<^verbatim>\<open>artifact\<close> (\<^verbatim>\<open>var response artifact\<close>).\<close>

definition zero_artifact :: artifact where
  "zero_artifact =
     \<lparr>ID = 0, NodeID = [], Name = [], SizeInBytes = 0, URL = [],
      ArchiveDownloadURL = [], Expired = False, CreatedAt = [], UpdatedAt = [],
      ExpiresAt = []\<rparr>"

record artifacts =
  Count :: go_int
  Artifacts :: "artifact list"

definition zero_artifacts :: artifacts where
  "zero_artifacts = \<lparr>Count = 0, Artifacts = []\<rparr>"

subsection \<open>\<^verbatim>\<open>artifact.Size\<close>\<close>

text \<open>
  A finite \<^verbatim>\<open>float64\<close> is modelled by the rational number it denotes.  The conversion
  \<^verbatim>\<open>float64(n)\<close> of an integer rounds to 53 significant bits, ties to even; it is exact
  below \<open>2 ^ 53\<close>.  Every divisor in \<^verbatim>\<open>Size\<close> is a power of two, and dividing a \<^verbatim>\<open>float64\<close>
  of this magnitude by a power of two is exact, so the quotient is the rational quotient.
\<close>

fun bit_length :: "nat \<Rightarrow> nat" where
  "bit_length n = (if n = 0 then 0 else Suc (bit_length (n div 2)))"

declare bit_length.simps [simp del]

definition float64_of_int :: "int \<Rightarrow> rat" where
  "float64_of_int n =
     (let m = nat \<bar>n\<bar>;
          e = bit_length m - 53;
          q = m div 2 ^ e;
          r = m mod 2 ^ e;
          q' = (if 2 ^ e < 2 * r \<or> (2 * r = 2 ^ e \<and> odd q) then q + 1 else q)
      in of_int (sgn n * int (q' * 2 ^ e)))"

text \<open>Go's integer division truncates towards zero, which is \<open>sdiv\<close>.\<close>

definition Size :: "artifact \<Rightarrow> rat \<times> string" where
  "Size a =
     (let n = sint (SizeInBytes a) in
      if n > 1024 * 1024 * 1024 * 1024 then
        (float64_of_int n / float64_of_int (1024 * 1024 * 1024 * 1024), ''terabytes'')
      else if n > 1024 * 1024 * 1024 then
        (float64_of_int (n sdiv (1024 * 1024 * 1024)), ''gigabytes'')
      else if n > 1024 * 1024 then
        (float64_of_int n / float64_of_int (1024 * 1024), ''megabytes'')
      else if n > 1024 then
        (float64_of_int n / float64_of_int 1024, ''kilobytes'')
      else (float64_of_int n, ''bytes''))"

subsection \<open>The catalogue: \<^verbatim>\<open>HasArtifacts\<close> and \<^verbatim>\<open>LatestActiveSherpaArtifact\<close>\<close>

definition HasArtifacts :: "artifacts \<Rightarrow> bool" where
  "HasArtifacts a = (0 < sint (Count a))"

text \<open>The \<^verbatim>\<open>for ... range\<close> loop of \<^verbatim>\<open>LatestActiveSherpaArtifact\<close>: \<open>response\<close> and \<open>err\<close>
  are the two variables the loop assigns; \<^verbatim>\<open>break\<close> leaves the remaining entries unread.\<close>

fun latest_loop :: "artifact list \<Rightarrow> artifact \<Rightarrow> error option \<Rightarrow> artifact \<times> error option" where
  "latest_loop [] response err = (response, err)"
| "latest_loop (a # as) response err =
     (if Name a = ''sherpa4selfie'' \<and> \<not> Expired a then (a, None)
      else latest_loop as response err)"

definition LatestActiveSherpaArtifact :: "artifacts \<Rightarrow> artifact \<times> error option" where
  "LatestActiveSherpaArtifact a =
     latest_loop (Artifacts a) zero_artifact (Some (ErrorString ''no suitable artifacts found''))"

subsection \<open>Paths as strings\<close>

text \<open>
  The program builds its paths with \<^verbatim>\<open>path.Join\<close>, \<^verbatim>\<open>filepath.Join\<close>, \<^verbatim>\<open>filepath.Clean\<close>
  and \<^verbatim>\<open>filepath.Dir\<close> and compares them with \<^verbatim>\<open>strings.HasPrefix\<close>.  These are functions
  of the Go standard library; they are modelled here after their documentation, for a
  platform whose \<^verbatim>\<open>os.PathSeparator\<close> is the slash: \<^verbatim>\<open>Clean\<close> drops empty and \<^verbatim>\<open>.\<close>
  elements, cancels an inner \<^verbatim>\<open>..\<close> against the element before it, drops a \<^verbatim>\<open>..\<close> that
  follows the root, and returns \<^verbatim>\<open>.\<close> for an empty result.
\<close>

definition os_PathSeparator :: char where
  "os_PathSeparator = CHR ''/''"

text \<open>The elements of a path, as \<^verbatim>\<open>strings.Split(p, "/")\<close> gives them; the list is never
  empty.\<close>

fun split_path :: "string \<Rightarrow> string list" where
  "split_path [] = [[]]"
| "split_path (c # s) =
     (if c = CHR ''/'' then [] # split_path s
      else (case split_path s of [] \<Rightarrow> [[c]] | x # xs \<Rightarrow> (c # x) # xs))"

fun join_path :: "string list \<Rightarrow> string" where
  "join_path [] = []"
| "join_path [x] = x"
| "join_path (x # y # xs) = x @ CHR ''/'' # join_path (y # xs)"

definition clean_step :: "bool \<Rightarrow> string list \<Rightarrow> string \<Rightarrow> string list" where
  "clean_step rooted acc c =
     (if c = [] \<or> c = ''.'' then acc
      else if c = ''..'' then
        (if acc \<noteq> [] \<and> last acc \<noteq> ''..'' then butlast acc
         else if rooted then acc
         else acc @ [''..''])
      else acc @ [c])"

definition filepath_Clean :: "string \<Rightarrow> string" where
  "filepath_Clean p =
     (if p = [] then ''.''
      else
        let rooted = (hd p = CHR ''/'');
            cs = foldl (clean_step rooted) [] (split_path p)
        in if rooted then CHR ''/'' # join_path cs
           else if cs = [] then ''.''
           else join_path cs)"

text \<open>\<^verbatim>\<open>filepath.Join\<close> and \<^verbatim>\<open>path.Join\<close> of two elements: empty elements are ignored, the
  rest is joined by a slash and cleaned; the result is empty when both are.\<close>

definition filepath_Join :: "string \<Rightarrow> string \<Rightarrow> string" where
  "filepath_Join a b =
     (if a = [] then (if b = [] then [] else filepath_Clean b)
      else filepath_Clean (a @ CHR ''/'' # b))"

definition path_Join :: "string \<Rightarrow> string \<Rightarrow> string" where
  "path_Join a b = filepath_Join a b"

text \<open>\<^verbatim>\<open>filepath.Dir\<close>: everything up to the last slash, cleaned.\<close>

definition filepath_Dir :: "string \<Rightarrow> string" where
  "filepath_Dir p = filepath_Clean (rev (dropWhile (\<lambda>c. c \<noteq> CHR ''/'') (rev p)))"

definition strings_HasPrefix :: "string \<Rightarrow> string \<Rightarrow> bool" where
  "strings_HasPrefix s p = prefix p s"

subsection \<open>The file tree\<close>

text \<open>
  A file system without links: a tree whose inner nodes are directories, given by the
  list of their entries, and whose leaves are regular files.  A location is the list of
  names leading to it from the root.
\<close>

datatype node = RegularFile bytes | Directory "(string \<times> node) list"

type_synonym location = "string list"

fun is_Directory :: "node \<Rightarrow> bool" where
  "is_Directory (Directory es) = True"
| "is_Directory (RegularFile b) = False"

fun lookup :: "node \<Rightarrow> location \<Rightarrow> node option" where
  "lookup n [] = Some n"
| "lookup (RegularFile b) (c # p) = None"
| "lookup (Directory es) (c # p) =
     (case map_of es c of None \<Rightarrow> None | Some n \<Rightarrow> lookup n p)"

text \<open>\<open>alter p f t\<close> changes the entry at \<open>p\<close> in its parent directory: \<open>f\<close> maps what is
  there (if anything) to what shall be there (if anything).  Nothing changes when the
  parent is not a directory of the tree; the root itself has no parent.\<close>

fun alter :: "location \<Rightarrow> (node option \<Rightarrow> node option) \<Rightarrow> node \<Rightarrow> node" where
  "alter [] f t = t"
| "alter (c # p) f (RegularFile b) = RegularFile b"
| "alter [c] f (Directory es) =
     (case f (map_of es c) of
        None \<Rightarrow> Directory (AList.delete c es)
      | Some v \<Rightarrow> Directory (AList.update c v es))"
| "alter (c # d # p) f (Directory es) =
     (case map_of es c of
        None \<Rightarrow> Directory es
      | Some n \<Rightarrow> Directory (AList.update c (alter (d # p) f n) es))"

subsection \<open>The world\<close>

text \<open>
  Resources a function holds open, system calls that can be made to fail, HTTP requests
  and responses, zip entries, and what the program prints.
\<close>

datatype handle =
    FileHandle location
  | ZipHandle location
  | EntryHandle string
  | BodyHandle string

datatype syscall =
    SysStat location
  | SysMkdir location
  | SysReadDir location
  | SysRemove location
  | SysRemoveAll location
  | SysOpenWrite location
  | SysOpenRead location
  | SysWrite location

record request =
  Method :: string
  RequestURL :: string
  Header :: "(string \<times> string) list"

text \<open>A stream delivers its bytes and then ends, either normally or with an error.\<close>

type_synonym stream = "bytes \<times> error option"

record response =
  StatusCode :: int
  Body :: stream

text \<open>An entry of a zip archive (\<^verbatim>\<open>*zip.File\<close>): its stored name (\<^verbatim>\<open>f.Name\<close>), whether
  \<^verbatim>\<open>f.FileInfo().IsDir()\<close> holds, its permission bits (\<^verbatim>\<open>f.Mode()\<close>), and what \<^verbatim>\<open>f.Open()\<close>
  gives: an error, or the stream of the decompressed bytes.\<close>

record zipFile =
  zName :: string
  IsDir :: bool
  Mode :: nat
  Open :: "error + stream"

datatype arg = S string | F rat

text \<open>Why \<^verbatim>\<open>flag.Parse\<close> ends the program: an argument such as \<^verbatim>\<open>-=x\<close> or \<^verbatim>\<open>---x\<close>, an option
  that is not defined, an option without its value, or the request for help.\<close>

datatype flag_failure =
    BadSyntax string
  | NotDefined string
  | NeedsArgument string
  | HelpRequested

text \<open>What the program writes: the calls of \<^verbatim>\<open>fmt.Println\<close> and \<^verbatim>\<open>fmt.Printf\<close> with their
  arguments, the error handed to \<^verbatim>\<open>log.Fatal\<close>, and the message and usage that
  \<^verbatim>\<open>flag.Parse\<close> prints before it exits.\<close>

datatype printed =
    Println "string list"
  | Printf string "arg list"
  | Fatal error
  | Usage flag_failure

text \<open>
  The state: the file tree, the working directory, the handles that are open (a
  multiset), the requests sent so far and the lines printed so far.  The remaining fields are the surroundings, which no
  function changes: \<open>fault\<close> makes a system call fail with the given cause (permissions,
  a failing disk), \<open>parse_url\<close> is the URL check of \<^verbatim>\<open>http.NewRequest\<close>, \<open>transport\<close>
  answers a request, \<open>unmarshal\<close> is \<^verbatim>\<open>json.Unmarshal\<close> into a value of type \<^verbatim>\<open>artifacts\<close>
  (it gives what the value holds afterwards, and the error), and
  \<open>zip_directory\<close> reads the entries of an archive from its bytes.
\<close>

record world =
  root :: node
  cwd :: location
  handles :: "handle multiset"
  requests :: "request list"
  stdout :: "printed list"
  fault :: "syscall \<Rightarrow> errno option"
  parse_url :: "string \<Rightarrow> error option"
  transport :: "request \<Rightarrow> error + response"
  unmarshal :: "bytes \<Rightarrow> artifacts \<Rightarrow> artifacts \<times> error option"
  zip_directory :: "bytes \<Rightarrow> error + zipFile list"

definition emit :: "printed \<Rightarrow> world \<Rightarrow> world" where
  "emit x w = w\<lparr>stdout := stdout w @ [x]\<rparr>"

definition acquire :: "handle \<Rightarrow> world \<Rightarrow> world" where
  "acquire h w = w\<lparr>handles := add_mset h (handles w)\<rparr>"

definition Close :: "handle \<Rightarrow> world \<Rightarrow> world" where
  "Close h w = w\<lparr>handles := handles w - {#h#}\<rparr>"

text \<open>A function that can panic either panics or returns.\<close>

datatype 'a outcome = Panic | Returned 'a

subsection \<open>The operating system\<close>

text \<open>
  The functions of package \<^verbatim>\<open>os\<close> that the program calls, on the file tree.  A path is
  resolved as the system does: from the root or from the working directory, one element
  after the other, and every directory passed on the way has to exist.  A call that the
  surroundings make fail changes nothing.
\<close>

fun walk :: "node \<Rightarrow> location \<Rightarrow> string list \<Rightarrow> errno + location" where
  "walk t cur [] = Inr cur"
| "walk t cur (c # cs) =
     (case lookup t cur of
        None \<Rightarrow> Inl ENOENT
      | Some (RegularFile b) \<Rightarrow> Inl ENOTDIR
      | Some (Directory es) \<Rightarrow>
          if c = [] \<or> c = ''.'' then walk t cur cs
          else if c = ''..'' then walk t (butlast cur) cs
          else walk t (cur @ [c]) cs)"

definition start_of :: "world \<Rightarrow> string \<Rightarrow> location" where
  "start_of w name = (if hd name = CHR ''/'' then [] else cwd w)"

definition resolve :: "world \<Rightarrow> string \<Rightarrow> errno + location" where
  "resolve w name =
     (if name = [] then Inl ENOENT
      else walk (root w) (start_of w name) (split_path name))"

definition locate :: "(location \<Rightarrow> syscall) \<Rightarrow> string \<Rightarrow> world \<Rightarrow> errno + location" where
  "locate call name w =
     (case resolve w name of
        Inl e \<Rightarrow> Inl e
      | Inr p \<Rightarrow> (case fault w (call p) of Some e \<Rightarrow> Inl e | None \<Rightarrow> Inr p))"

text \<open>\<^verbatim>\<open>os.Stat\<close>; the result tells whether the path is a directory.\<close>

definition os_Stat :: "string \<Rightarrow> world \<Rightarrow> error + bool" where
  "os_Stat name w =
     (case locate SysStat name w of
        Inl e \<Rightarrow> Inl (PathError ''stat'' name e)
      | Inr p \<Rightarrow>
          (case lookup (root w) p of
             None \<Rightarrow> Inl (PathError ''stat'' name ENOENT)
           | Some n \<Rightarrow> Inr (is_Directory n)))"

fun os_IsNotExist :: "error option \<Rightarrow> bool" where
  "os_IsNotExist (Some (PathError op name ENOENT)) = True"
| "os_IsNotExist err = False"

text \<open>\<^verbatim>\<open>os.Mkdir\<close> makes one directory; its parent has to exist.  Slashes at the end of the
  name do not count (\<^verbatim>\<open>mkdir("new/")\<close> makes \<^verbatim>\<open>new\<close>).\<close>

definition trim_slashes :: "string \<Rightarrow> string" where
  "trim_slashes name =
     (let s = rev (dropWhile (\<lambda>c. c = CHR ''/'') (rev name)) in if s = [] then name else s)"

definition os_Mkdir :: "string \<Rightarrow> world \<Rightarrow> error option \<times> world" where
  "os_Mkdir name w =
     (case locate SysMkdir (trim_slashes name) w of
        Inl e \<Rightarrow> (Some (PathError ''mkdir'' name e), w)
      | Inr p \<Rightarrow>
          (case lookup (root w) p of
             Some n \<Rightarrow> (Some (PathError ''mkdir'' name EEXIST), w)
           | None \<Rightarrow> (None, w\<lparr>root := alter p (\<lambda>x. Some (Directory [])) (root w)\<rparr>)))"

text \<open>\<^verbatim>\<open>ioutil.ReadDir\<close>: the entries of a directory, sorted by name, each with its
  \<^verbatim>\<open>IsDir()\<close>.\<close>

definition ioutil_ReadDir :: "string \<Rightarrow> world \<Rightarrow> error + (string \<times> bool) list" where
  "ioutil_ReadDir name w =
     (case locate SysReadDir name w of
        Inl e \<Rightarrow> Inl (PathError ''open'' name e)
      | Inr p \<Rightarrow>
          (case lookup (root w) p of
             None \<Rightarrow> Inl (PathError ''open'' name ENOENT)
           | Some (RegularFile b) \<Rightarrow> Inl (PathError ''readdirent'' name ENOTDIR)
           | Some (Directory es) \<Rightarrow>
               Inr (sort_key fst (map (\<lambda>(n, x). (n, is_Directory x)) es))))"

text \<open>\<^verbatim>\<open>os.RemoveAll\<close> removes a path and everything below it; a path that does not lead
  anywhere is no error.\<close>

definition os_RemoveAll :: "string \<Rightarrow> world \<Rightarrow> error option \<times> world" where
  "os_RemoveAll name w =
     (case resolve w name of
        Inl e \<Rightarrow> (if e = ENOENT then (None, w) else (Some (PathError ''unlinkat'' name e), w))
      | Inr p \<Rightarrow>
          (case fault w (SysRemoveAll p) of
             Some e \<Rightarrow> (Some (PathError ''unlinkat'' name e), w)
           | None \<Rightarrow>
               if p = [] then (Some (PathError ''unlinkat'' name EACCES), w)
               else (None, w\<lparr>root := alter p (\<lambda>x. None) (root w)\<rparr>)))"

text \<open>\<^verbatim>\<open>os.Remove\<close> removes a file or an empty directory.\<close>

definition os_Remove :: "string \<Rightarrow> world \<Rightarrow> error option \<times> world" where
  "os_Remove name w =
     (case locate SysRemove name w of
        Inl e \<Rightarrow> (Some (PathError ''remove'' name e), w)
      | Inr p \<Rightarrow>
          (case lookup (root w) p of
             None \<Rightarrow> (Some (PathError ''remove'' name ENOENT), w)
           | Some (Directory (e # es)) \<Rightarrow> (Some (PathError ''remove'' name ENOTEMPTY), w)
           | Some n \<Rightarrow>
               if p = [] then (Some (PathError ''remove'' name EACCES), w)
               else (None, w\<lparr>root := alter p (\<lambda>x. None) (root w)\<rparr>)))"

text \<open>\<^verbatim>\<open>os.MkdirAll\<close> creates a directory and every missing parent; a directory that is
  there already is no error.  The directories made before a failure stay.  The error
  names the path up to the element at which it arose (\<open>seen\<close> holds the elements passed
  so far): the element that is a regular file, or the directory that could not be made.
  When the directory to start from is missing itself, that is the first element.\<close>

fun mkdir_walk ::
  "(syscall \<Rightarrow> errno option) \<Rightarrow> node \<Rightarrow> location \<Rightarrow> string list \<Rightarrow> string list \<Rightarrow>
   (string list \<times> errno) option \<times> node" where
  "mkdir_walk flt t cur seen [] = (None, t)"
| "mkdir_walk flt t cur seen (c # cs) =
     (if c = [] \<or> c = ''.'' then mkdir_walk flt t cur (seen @ [c]) cs
      else if c = ''..'' then mkdir_walk flt t (butlast cur) (seen @ [c]) cs
      else
        case lookup t (cur @ [c]) of
          Some (Directory es) \<Rightarrow> mkdir_walk flt t (cur @ [c]) (seen @ [c]) cs
        | Some (RegularFile b) \<Rightarrow> (Some (seen @ [c], ENOTDIR), t)
        | None \<Rightarrow>
            (case flt (SysMkdir (cur @ [c])) of
               Some e \<Rightarrow> (Some (seen @ [c], e), t)
             | None \<Rightarrow>
                 mkdir_walk flt (alter (cur @ [c]) (\<lambda>x. Some (Directory [])) t) (cur @ [c])
                   (seen @ [c]) cs))"

definition first_element :: "string \<Rightarrow> string" where
  "first_element name =
     join_path (take (if hd name = CHR ''/'' then 2 else 1) (split_path name))"

definition os_MkdirAll :: "string \<Rightarrow> world \<Rightarrow> error option \<times> world" where
  "os_MkdirAll name w =
     (if name = [] then (Some (PathError ''mkdir'' name ENOENT), w)
      else
        case lookup (root w) (start_of w name) of
          Some (Directory es) \<Rightarrow>
            (case mkdir_walk (fault w) (root w) (start_of w name) [] (split_path name) of
               (Some (seen, e), t) \<Rightarrow> (Some (PathError ''mkdir'' (join_path seen) e), w\<lparr>root := t\<rparr>)
             | (None, t) \<Rightarrow> (None, w\<lparr>root := t\<rparr>))
        | Some (RegularFile b) \<Rightarrow> (Some (PathError ''mkdir'' (first_element name) ENOTDIR), w)
        | None \<Rightarrow> (Some (PathError ''mkdir'' (first_element name) ENOENT), w))"

text \<open>\<^verbatim>\<open>os.OpenFile\<close> with \<^verbatim>\<open>O_WRONLY|O_CREATE|O_TRUNC\<close>, and \<^verbatim>\<open>os.Create\<close>, which is
  \<^verbatim>\<open>OpenFile\<close> with \<^verbatim>\<open>O_RDWR|O_CREATE|O_TRUNC\<close>: the file is created, or emptied when it
  exists, and stays open.\<close>

definition os_OpenFile :: "string \<Rightarrow> nat \<Rightarrow> world \<Rightarrow> (error + handle) \<times> world" where
  "os_OpenFile name perm w =
     (case locate SysOpenWrite name w of
        Inl e \<Rightarrow> (Inl (PathError ''open'' name e), w)
      | Inr p \<Rightarrow>
          (case lookup (root w) p of
             Some (Directory es) \<Rightarrow> (Inl (PathError ''open'' name EISDIR), w)
           | x \<Rightarrow>
               (Inr (FileHandle p),
                acquire (FileHandle p)
                  (w\<lparr>root := alter p (\<lambda>x. Some (RegularFile [])) (root w)\<rparr>))))"

definition os_Create :: "string \<Rightarrow> world \<Rightarrow> (error + handle) \<times> world" where
  "os_Create name w = os_OpenFile name 438 w"

text \<open>\<^verbatim>\<open>io.Copy\<close> into an open file: the bytes the source delivers are appended to the file;
  the error is that of the write, or else the one the source ended with.\<close>

fun append_bytes :: "bytes \<Rightarrow> node option \<Rightarrow> node option" where
  "append_bytes bs (Some (RegularFile old)) = Some (RegularFile (old @ bs))"
| "append_bytes bs x = x"

fun io_Copy :: "handle \<Rightarrow> stream \<Rightarrow> world \<Rightarrow> error option \<times> world" where
  "io_Copy (FileHandle p) (bs, err) w =
     (case fault w (SysWrite p) of
        Some e \<Rightarrow> (Some (PathError ''write'' (join_path p) e), w)
      | None \<Rightarrow> (err, w\<lparr>root := alter p (append_bytes bs) (root w)\<rparr>))"
| "io_Copy h src w = (Some (LibError ''invalid argument''), w)"

subsection \<open>Archives\<close>

text \<open>\<^verbatim>\<open>zip.OpenReader\<close> opens the file and reads the list of entries; the reader holds the
  file open until it is closed.  \<^verbatim>\<open>f.Open()\<close> gives the stream of an entry.\<close>

definition zip_OpenReader ::
  "string \<Rightarrow> world \<Rightarrow> (error + handle \<times> zipFile list) \<times> world" where
  "zip_OpenReader name w =
     (case locate SysOpenRead name w of
        Inl e \<Rightarrow> (Inl (PathError ''open'' name e), w)
      | Inr p \<Rightarrow>
          (case lookup (root w) p of
             None \<Rightarrow> (Inl (PathError ''open'' name ENOENT), w)
           | Some (Directory es) \<Rightarrow> (Inl (PathError ''read'' name EISDIR), w)
           | Some (RegularFile bs) \<Rightarrow>
               (case zip_directory w bs of
                  Inl e \<Rightarrow> (Inl e, w)
                | Inr files \<Rightarrow> (Inr (ZipHandle p, files), acquire (ZipHandle p) w))))"

definition zipFile_Open :: "zipFile \<Rightarrow> world \<Rightarrow> (error + handle \<times> stream) \<times> world" where
  "zipFile_Open f w =
     (case Open f of
        Inl e \<Rightarrow> (Inl e, w)
      | Inr src \<Rightarrow> (Inr (EntryHandle (zName f), src), acquire (EntryHandle (zName f)) w))"

subsection \<open>HTTP and JSON\<close>

text \<open>\<^verbatim>\<open>http.NewRequest\<close> returns a request, or \<^verbatim>\<open>nil\<close> and an error when the URL does not
  parse.  \<^verbatim>\<open>client.Do\<close> sends it; a response comes with an open body.\<close>

definition http_NewRequest :: "string \<Rightarrow> string \<Rightarrow> world \<Rightarrow> request option \<times> error option" where
  "http_NewRequest method url w =
     (case parse_url w url of
        Some e \<Rightarrow> (None, Some e)
      | None \<Rightarrow> (Some \<lparr>Method = method, RequestURL = url, Header = []\<rparr>, None))"

definition client_Do :: "request \<Rightarrow> world \<Rightarrow> (error + handle \<times> response) \<times> world" where
  "client_Do req w =
     (let w' = w\<lparr>requests := requests w @ [req]\<rparr> in
      case transport w req of
        Inl e \<Rightarrow> (Inl e, w')
      | Inr resp \<Rightarrow>
          (Inr (BodyHandle (RequestURL req), resp), acquire (BodyHandle (RequestURL req)) w'))"

definition ioutil_ReadAll :: "stream \<Rightarrow> bytes \<times> error option" where
  "ioutil_ReadAll src = src"

text \<open>\<^verbatim>\<open>json.Unmarshal(body, &data)\<close> decodes into \<open>data\<close>.  When it returns an error, \<open>data\<close>
  holds whatever had been decoded by then; \<^verbatim>\<open>Artifacts\<close> returns it together with the
  error.\<close>

definition json_Unmarshal :: "bytes \<Rightarrow> artifacts \<Rightarrow> world \<Rightarrow> artifacts \<times> error option" where
  "json_Unmarshal body data w = unmarshal w body data"

subsection \<open>The updater\<close>

definition colorReset :: string where
  "colorReset = CHR 0x1B # ''[0m''"

definition colorGreen :: string where
  "colorGreen = CHR 0x1B # ''[32m''"

definition colorRed :: string where
  "colorRed = CHR 0x1B # ''[31m''"

definition colorBlue :: string where
  "colorBlue = CHR 0x1B # ''[34m''"

record updater =
  repository :: string
  token :: string
  directory :: string

definition RepositoryURL :: "updater \<Rightarrow> string" where
  "RepositoryURL u = ''https://api.github.com/repos/'' @ repository u @ ''/actions/artifacts''"

text \<open>\<^verbatim>\<open>req\<close> is a pointer: \<open>None\<close> is \<^verbatim>\<open>nil\<close>, and reading \<^verbatim>\<open>req.Header\<close> of \<^verbatim>\<open>nil\<close> panics.
  The request with the header added is returned.\<close>

fun AddAuthorizationHeader :: "updater \<Rightarrow> request option \<Rightarrow> request outcome" where
  "AddAuthorizationHeader u None = Panic"
| "AddAuthorizationHeader u (Some req) =
     Returned (req\<lparr>Header := Header req @ [(''Authorization'', ''Bearer '' @ token u)]\<rparr>)"

text \<open>The method \<^verbatim>\<open>Artifacts\<close> of \<^verbatim>\<open>updater\<close> is \<open>updater_Artifacts\<close> here (\<open>Artifacts\<close> is
  the field of the catalogue).  In it and in \<^verbatim>\<open>DownloadFile\<close> the header is added before
  \<open>err\<close> is looked at.  \<^verbatim>\<open>defer resp.Body.Close()\<close> runs on every return after it.\<close>

definition updater_Artifacts :: "updater \<Rightarrow> world \<Rightarrow> (artifacts \<times> error option) outcome \<times> world" where
  "updater_Artifacts u w =
     (let data = zero_artifacts;
          (req, err) = http_NewRequest ''GET'' (RepositoryURL u) w
      in case AddAuthorizationHeader u req of
           Panic \<Rightarrow> (Panic, w)
         | Returned req \<Rightarrow>
             (case err of
                Some e \<Rightarrow> (Returned (data, Some e), w)
              | None \<Rightarrow>
                  (case client_Do req w of
                     (Inl e, w1) \<Rightarrow> (Returned (data, Some e), w1)
                   | (Inr (body, resp), w1) \<Rightarrow>
                       (let res =
                          (if StatusCode resp \<noteq> 200 then
                             (data, Some (StatusError (StatusCode resp)))
                           else
                             case ioutil_ReadAll (Body resp) of
                               (bs, Some e) \<Rightarrow> (data, Some e)
                             | (bs, None) \<Rightarrow>
                                 (case json_Unmarshal bs data w1 of
                                    (data', Some e) \<Rightarrow> (data', Some e)
                                  | (data', None) \<Rightarrow> (data', None)))
                        in (Returned res, Close body w1)))))"

definition DownloadFile ::
  "updater \<Rightarrow> string \<Rightarrow> string \<Rightarrow> world \<Rightarrow> error option outcome \<times> world" where
  "DownloadFile u url fileName w =
     (let (req, err) = http_NewRequest ''GET'' url w
      in case AddAuthorizationHeader u req of
           Panic \<Rightarrow> (Panic, w)
         | Returned req \<Rightarrow>
             (case err of
                Some e \<Rightarrow> (Returned (Some e), w)
              | None \<Rightarrow>
                  (case client_Do req w of
                     (Inl e, w1) \<Rightarrow> (Returned (Some e), w1)
                   | (Inr (body, resp), w1) \<Rightarrow>
                       (let (res, w2) =
                          (if StatusCode resp \<noteq> 200 then
                             (Some (StatusError (StatusCode resp)), w1)
                           else
                             case os_Create fileName w1 of
                               (Inl e, w') \<Rightarrow> (Some e, w')
                             | (Inr file, w') \<Rightarrow>
                                 (case io_Copy file (Body resp) w' of
                                    (err, w'') \<Rightarrow> (err, Close file w'')))
                        in (Returned res, Close body w2)))))"

subsection \<open>\<^verbatim>\<open>unzip\<close>\<close>

text \<open>
  The loop over \<^verbatim>\<open>r.File\<close>, with \<open>filenames\<close> as the list built so far.  The result of
  \<^verbatim>\<open>os.MkdirAll\<close> for a directory entry is dropped, as in the source.  When \<^verbatim>\<open>f.Open()\<close>
  fails the function returns with \<open>outFile\<close> still open.
\<close>

fun unzip_loop ::
  "string \<Rightarrow> zipFile list \<Rightarrow> string list \<Rightarrow> world \<Rightarrow> (string list \<times> error option) \<times> world" where
  "unzip_loop dest [] filenames w = ((filenames, None), w)"
| "unzip_loop dest (f # fs) filenames w =
     (let filePath = filepath_Join dest (zName f) in
      if \<not> strings_HasPrefix filePath (filepath_Clean dest @ [os_PathSeparator]) then
        ((filenames, Some (ErrorString (filePath @ '': illegal file path''))), w)
      else
        let filenames = filenames @ [filePath] in
        if IsDir f then
          (case os_MkdirAll filePath w of (ignored, w1) \<Rightarrow> unzip_loop dest fs filenames w1)
        else
          case os_MkdirAll (filepath_Dir filePath) w of
            (Some err, w1) \<Rightarrow> ((filenames, Some err), w1)
          | (None, w1) \<Rightarrow>
              (case os_OpenFile filePath (Mode f) w1 of
                 (Inl err, w2) \<Rightarrow> ((filenames, Some err), w2)
               | (Inr outFile, w2) \<Rightarrow>
                   (case zipFile_Open f w2 of
                      (Inl err, w3) \<Rightarrow> ((filenames, Some err), w3)
                    | (Inr (rc, src), w3) \<Rightarrow>
                        (case io_Copy outFile src w3 of
                           (err, w4) \<Rightarrow>
                             (let w5 = Close rc (Close outFile w4) in
                              case err of
                                Some e \<Rightarrow> ((filenames, Some e), w5)
                              | None \<Rightarrow> unzip_loop dest fs filenames w5)))))"

text \<open>\<^verbatim>\<open>defer r.Close()\<close> runs when the loop has returned.\<close>

definition unzip :: "string \<Rightarrow> string \<Rightarrow> world \<Rightarrow> (string list \<times> error option) \<times> world" where
  "unzip src dest w =
     (case zip_OpenReader src w of
        (Inl err, w1) \<Rightarrow> (([], Some err), w1)
      | (Inr (r, files), w1) \<Rightarrow>
          (case unzip_loop dest files [] w1 of (res, w2) \<Rightarrow> (res, Close r w2)))"

subsection \<open>\<^verbatim>\<open>DownloadAndReplace\<close>\<close>

text \<open>The loop over the entries that \<^verbatim>\<open>ioutil.ReadDir\<close> returned (lines 141 to 157).\<close>

fun remove_loop :: "string \<Rightarrow> (string \<times> bool) list \<Rightarrow> world \<Rightarrow> error option \<times> world" where
  "remove_loop dir [] w = (None, w)"
| "remove_loop dir ((name, isDir) # files) w =
     (let filePath = path_Join dir name in
      if isDir then
        (case os_RemoveAll filePath w of
           (Some err, w1) \<Rightarrow> (Some err, w1)
         | (None, w1) \<Rightarrow> remove_loop dir files w1)
      else
        (case os_Remove filePath w of
           (Some err, w1) \<Rightarrow> (Some err, w1)
         | (None, w1) \<Rightarrow> remove_loop dir files w1))"

text \<open>Lines 124 to 158: the directory is created when \<^verbatim>\<open>os.Stat\<close> says it does not exist,
  and emptied otherwise.\<close>

definition prepare_directory :: "updater \<Rightarrow> world \<Rightarrow> error option \<times> world" where
  "prepare_directory u w =
     (let statErr = (case os_Stat (directory u) w of Inl e \<Rightarrow> Some e | Inr info \<Rightarrow> None) in
      if os_IsNotExist statErr then
        os_Mkdir (directory u) (emit (Println [''Directory doesn't exist, creating one'']) w)
      else
        let w1 = emit (Println [''Removing catalog contents'']) w in
        case ioutil_ReadDir (directory u) w1 of
          Inl err \<Rightarrow> (Some err, w1)
        | Inr files \<Rightarrow> remove_loop (directory u) files w1)"

text \<open>Lines 160 to 174: the archive is unpacked and then removed.\<close>

definition extract_and_remove :: "updater \<Rightarrow> world \<Rightarrow> error option \<times> world" where
  "extract_and_remove u w =
     (case unzip ''dist.zip'' (directory u) (emit (Println [''Extracting archive contents'']) w) of
        ((filenames, Some unzipErr), w1) \<Rightarrow> (Some unzipErr, w1)
      | ((filenames, None), w1) \<Rightarrow>
          os_Remove ''dist.zip'' (emit (Println [''Removing archive'']) w1))"

text \<open>Lines 113 to 117: what is printed before the download.\<close>

definition announce :: "artifact \<Rightarrow> world \<Rightarrow> world" where
  "announce a w =
     (let (sizeValue, sizeSuffix) = Size a in
      emit (Println [''Please be patient ...''])
        (emit (Printf (''Artifact location URL: %s'' @ [CHR 0x0A]) [S (ArchiveDownloadURL a)])
          (emit (Printf (''Downloading artifact archive `%s` (%.2f %s) created at %s'' @ [CHR 0x0A])
                   [S (Name a), F sizeValue, S sizeSuffix, S (CreatedAt a)]) w)))"

definition DownloadAndReplace :: "updater \<Rightarrow> artifact \<Rightarrow> world \<Rightarrow> error option outcome \<times> world" where
  "DownloadAndReplace u a w =
     (case DownloadFile u (ArchiveDownloadURL a) ''dist.zip'' (announce a w) of
        (Panic, w1) \<Rightarrow> (Panic, w1)
      | (Returned (Some err), w1) \<Rightarrow> (Returned (Some err), w1)
      | (Returned None, w1) \<Rightarrow>
          (case prepare_directory u w1 of
             (Some err, w2) \<Rightarrow> (Returned (Some err), w2)
           | (None, w2) \<Rightarrow>
               (case extract_and_remove u w2 of (err, w3) \<Rightarrow> (Returned err, w3))))"

subsection \<open>\<^verbatim>\<open>main\<close>\<close>

text \<open>
  The command line is the list of the arguments of the program (\<^verbatim>\<open>os.Args[1:]\<close>).
  \<^verbatim>\<open>flag.Parse\<close> reads it from the left as package \<^verbatim>\<open>flag\<close> documents: an argument that
  is \<^verbatim>\<open>-\<close>, or does not begin with \<^verbatim>\<open>-\<close>, ends the options, and so does \<^verbatim>\<open>--\<close>; an option
  is written with one or two dashes, its value follows after \<^verbatim>\<open>=\<close> or is the next
  argument.  The three options are string options: \<open>flags\<close> holds for each the value given
  last, if it was given; an option that is absent has the default of its
  \<^verbatim>\<open>flag.StringVar\<close>.  The flag set of the command line exits on an error: with status 2,
  and with status 0 after \<^verbatim>\<open>-h\<close> or \<^verbatim>\<open>-help\<close>, having printed the reason and the usage.
\<close>

record flags =
  flag_r :: "string option"
  flag_t :: "string option"
  flag_d :: "string option"

definition no_flags :: flags where
  "no_flags = \<lparr>flag_r = None, flag_t = None, flag_d = None\<rparr>"

definition set_flag :: "string \<Rightarrow> string \<Rightarrow> flags \<Rightarrow> flags" where
  "set_flag name v given =
     (if name = ''r'' then given\<lparr>flag_r := Some v\<rparr>
      else if name = ''t'' then given\<lparr>flag_t := Some v\<rparr>
      else given\<lparr>flag_d := Some v\<rparr>)"

fun flag_Parse :: "string list \<Rightarrow> flags \<Rightarrow> flag_failure + flags" where
  "flag_Parse [] given = Inr given"
| "flag_Parse (s # rest) given =
     (if length s < 2 \<or> hd s \<noteq> CHR ''-'' then Inr given
      else if s = ''--'' then Inr given
      else
        let body = (if s ! 1 = CHR ''-'' then drop 2 s else drop 1 s) in
        if body = [] \<or> hd body = CHR ''-'' \<or> hd body = CHR ''='' then Inl (BadSyntax s)
        else
          let hasValue = (CHR ''='' \<in> set body);
              v = drop 1 (dropWhile (\<lambda>c. c \<noteq> CHR ''='') body);
              name = takeWhile (\<lambda>c. c \<noteq> CHR ''='') body
          in
          if name \<noteq> ''r'' \<and> name \<noteq> ''t'' \<and> name \<noteq> ''d'' then
            (if name = ''help'' \<or> name = ''h'' then Inl HelpRequested else Inl (NotDefined name))
          else if hasValue then flag_Parse rest (set_flag name v given)
          else
            (case rest of
               [] \<Rightarrow> Inl (NeedsArgument name)
             | v # rest' \<Rightarrow> flag_Parse rest' (set_flag name v given)))"

definition flag_value :: "string option \<Rightarrow> string \<Rightarrow> string" where
  "flag_value given dflt = (case given of None \<Rightarrow> dflt | Some v \<Rightarrow> v)"

definition log_Fatal :: "error \<Rightarrow> world \<Rightarrow> nat \<times> world" where
  "log_Fatal err w = (1, emit (Fatal err) w)"

text \<open>The result of \<open>main\<close> is the exit status of the process: that of \<^verbatim>\<open>flag.Parse\<close> when
  it exits, 0 when \<^verbatim>\<open>main\<close> returns, 1 after \<^verbatim>\<open>log.Fatal\<close>, 2 after a panic.\<close>

definition main :: "string list \<Rightarrow> world \<Rightarrow> nat \<times> world" where
  "main args w =
     (case flag_Parse args no_flags of
        Inl failure \<Rightarrow> ((if failure = HelpRequested then 0 else 2), emit (Usage failure) w)
      | Inr given \<Rightarrow>
     (let repository = flag_value (flag_r given) ''pjotrsavitski/sherpa-helper'';
          token = flag_value (flag_t given) [];
          directory = flag_value (flag_d given) ''sherpa4selfie''
      in
      if repository = [] \<or> token = [] \<or> directory = [] then
        (0, emit (Println [colorRed, ''At least one of the parameters is missing!'', colorReset]) w)
      else
        let updater = \<lparr>repository = repository, token = token, directory = directory\<rparr>;
            w0 = emit (Println [''Downloading artifacts data, please wait ...'']) w
        in
        case updater_Artifacts updater w0 of
          (Panic, w1) \<Rightarrow> (2, w1)
        | (Returned (data, Some err), w1) \<Rightarrow> log_Fatal err w1
        | (Returned (data, None), w1) \<Rightarrow>
            if HasArtifacts data then
              (case LatestActiveSherpaArtifact data of
                 (artifact, Some err) \<Rightarrow> log_Fatal err w1
               | (artifact, None) \<Rightarrow>
                   (case DownloadAndReplace updater artifact w1 of
                      (Panic, w2) \<Rightarrow> (2, w2)
                    | (Returned (Some err1), w2) \<Rightarrow> log_Fatal err1 w2
                    | (Returned None, w2) \<Rightarrow>
                        (0, emit (Println [colorGreen, ''All done'', colorReset]) w2)))
            else
              (0, emit (Println [colorGreen, ''All done'', colorReset])
                    (emit (Println [colorBlue, ''No artifacts found!'', colorReset]) w1))))"

subsection \<open>Notions for stating the properties\<close>

text \<open>A location is a directory of the tree; a name is a real name when it can be the
  name of an entry (not empty, not \<^verbatim>\<open>.\<close> or \<^verbatim>\<open>..\<close>, no slash); a tree is well formed when
  every entry of every directory has a real name.\<close>

definition is_dir_at :: "node \<Rightarrow> location \<Rightarrow> bool" where
  "is_dir_at t p = (case lookup t p of Some (Directory es) \<Rightarrow> True | _ \<Rightarrow> False)"

definition real_name :: "string \<Rightarrow> bool" where
  "real_name c = (c \<noteq> [] \<and> c \<noteq> ''.'' \<and> c \<noteq> ''..'' \<and> CHR ''/'' \<notin> set c)"

fun wf_node :: "node \<Rightarrow> bool" where
  "wf_node (RegularFile b) = True"
| "wf_node (Directory es) = list_all (\<lambda>e. real_name (fst e) \<and> wf_node (snd e)) es"


text \<open>Where a list of path elements leads from a location when no directory on the way
  is missing; the elements of a cleaned path; and the shape these have: some \<^verbatim>\<open>..\<close>
  (none after the root) and then real names.\<close>

fun lexical :: "location \<Rightarrow> string list \<Rightarrow> location" where
  "lexical cur [] = cur"
| "lexical cur (c # cs) =
     (if c = [] \<or> c = ''.'' then lexical cur cs
      else if c = ''..'' then lexical (butlast cur) cs
      else lexical (cur @ [c]) cs)"

definition clean_elems :: "string \<Rightarrow> string list" where
  "clean_elems p = foldl (clean_step (hd p = CHR ''/'')) [] (split_path p)"

definition normal :: "bool \<Rightarrow> string list \<Rightarrow> bool" where
  "normal rooted cs =
     (\<exists>k names. cs = replicate k ''..'' @ names \<and> list_all real_name names \<and> (rooted \<longrightarrow> k = 0))"

text \<open>The location that a path denotes when its elements are followed from where the
  path starts, whatever is there; a path that cleans to \<^verbatim>\<open>..\<close>, \<^verbatim>\<open>../..\<close> and so on; and a
  cleaned path written out from its elements.\<close>

definition target_of :: "world \<Rightarrow> string \<Rightarrow> location" where
  "target_of w p = lexical (start_of w p) (clean_elems p)"



text \<open>Two relations between a world and a later one: only the tree has changed, and
  every directory of the later tree was one before (the root stays one); and: the working
  directory, the surroundings, the requests and the output are the same.\<close>

definition removal_of :: "world \<Rightarrow> world \<Rightarrow> bool" where
  "removal_of w w' =
     ((\<exists>t. w' = w\<lparr>root := t\<rparr>) \<and>
      (\<forall>q. is_dir_at (root w') q \<longrightarrow> is_dir_at (root w) q) \<and>
      (is_dir_at (root w) [] \<longrightarrow> is_dir_at (root w') []))"

definition same_place :: "world \<Rightarrow> world \<Rightarrow> bool" where
  "same_place w w' =
     (cwd w' = cwd w \<and> fault w' = fault w \<and> zip_directory w' = zip_directory w \<and>
      requests w' = requests w \<and> stdout w' = stdout w)"

text \<open>Between two trees nothing has changed beside the location \<open>d\<close>: every location
  that is neither \<open>d\<close> or below it, nor on the way to it, holds what it held.\<close>

definition beside :: "location \<Rightarrow> node \<Rightarrow> node \<Rightarrow> bool" where
  "beside d t t' = (\<forall>q. \<not> prefix d q \<and> \<not> prefix q d \<longrightarrow> lookup t' q = lookup t q)"

subsection \<open>Example worlds\<close>

text \<open>
  Concrete surroundings on which the functions can be run: the working directory is
  \<^verbatim>\<open>/home/app\<close>, no system call is made to fail, a URL with a DEL character does not
  parse, the listing of the default repository is answered with the bytes \<^verbatim>\<open>JSON\<close>, which
  decode to the catalogue \<open>c\<close>, the download URL \<^verbatim>\<open>https://dl/1\<close> with the bytes \<^verbatim>\<open>ZIP\<close>,
  which are an archive with the entries \<open>z\<close>.
\<close>

definition example_transport :: "request \<Rightarrow> error + response" where
  "example_transport req =
     (if RequestURL req = ''https://api.github.com/repos/pjotrsavitski/sherpa-helper/actions/artifacts''
      then Inr \<lparr>StatusCode = 200, Body = (''JSON'', None)\<rparr>
      else if RequestURL req = ''https://dl/1''
      then Inr \<lparr>StatusCode = 200, Body = (''ZIP'', None)\<rparr>
      else Inl (LibError ''no such host''))"

definition example_world :: "node \<Rightarrow> artifacts \<Rightarrow> zipFile list \<Rightarrow> world" where
  "example_world t c z =
     \<lparr>root = t, cwd = [''home'', ''app''], handles = {#}, requests = [], stdout = [],
      fault = (\<lambda>call. None),
      parse_url = (\<lambda>url. if CHR 0x7F \<in> set url
                          then Some (LibError ''net/url: invalid control character in URL'')
                          else None),
      transport = example_transport,
      unmarshal = (\<lambda>b d. if b = ''JSON'' then (c, None)
                           else (d, Some (LibError ''invalid character''))),
      zip_directory = (\<lambda>b. if b = ''ZIP'' then Inr z
                             else Inl (LibError ''zip: not a valid zip file''))\<rparr>"

text \<open>A tree in which \<^verbatim>\<open>/home/app/sherpa4selfie\<close> holds a file and a directory from an
  earlier run.\<close>

definition example_tree :: node where
  "example_tree =
     Directory [(''home'', Directory [(''app'', Directory [(''sherpa4selfie'',
       Directory [(''old.txt'', RegularFile ''old''),
                  (''sub'', Directory [(''x'', RegularFile ''1'')])])])])]"

text \<open>The archive of the specification's example: \<^verbatim>\<open>foo.txt\<close> with four bytes, the
  directory \<^verbatim>\<open>bar\<close> and the empty file \<^verbatim>\<open>bar/baz.txt\<close>.\<close>

definition example_archive :: "zipFile list" where
  "example_archive =
     [\<lparr>zName = ''foo.txt'', IsDir = False, Mode = 420, Open = Inr (''abcd'', None)\<rparr>,
      \<lparr>zName = ''bar/'', IsDir = True, Mode = 493, Open = Inr ([], None)\<rparr>,
      \<lparr>zName = ''bar/baz.txt'', IsDir = False, Mode = 420, Open = Inr ([], None)\<rparr>]"

definition example_artifact :: "bool \<Rightarrow> string \<Rightarrow> artifact" where
  "example_artifact expired url =
     \<lparr>ID = 7, NodeID = ''n'', Name = ''sherpa4selfie'', SizeInBytes = 1536, URL = ''u'',
      ArchiveDownloadURL = url, Expired = expired, CreatedAt = ''2020-01-01'',
      UpdatedAt = ''2020-01-01'', ExpiresAt = ''2020-04-01''\<rparr>"

definition example_catalog :: artifacts where
  "example_catalog =
     \<lparr>Count = 3,
      Artifacts = [example_artifact True ''https://dl/0'', example_artifact False ''https://dl/1'',
                   example_artifact False ''https://dl/2'']\<rparr>"

text \<open>The tree with the given entries in the working directory \<^verbatim>\<open>/home/app\<close>.\<close>

definition app_tree :: "(string \<times> node) list \<Rightarrow> node" where
  "app_tree es = Directory [(''home'', Directory [(''app'', Directory es)])]"

text \<open>An archive whose only entry cannot be opened, an archive with a single directory
  entry, and an archive whose second entry points out of the destination.\<close>

definition unreadable_archive :: "zipFile list" where
  "unreadable_archive =
     [\<lparr>zName = ''a.txt'', IsDir = False, Mode = 420,
       Open = Inl (LibError ''zip: unsupported compression algorithm'')\<rparr>]"

definition directory_archive :: "zipFile list" where
  "directory_archive = [\<lparr>zName = ''d/'', IsDir = True, Mode = 493, Open = Inr ([], None)\<rparr>]"



definition unwritable_world :: world where
  "unwritable_world =
     (example_world example_tree example_catalog directory_archive)
       \<lparr>fault := (\<lambda>call. if call = SysMkdir [''home'', ''app'', ''sherpa4selfie'', ''d'']
                          then Some EACCES else None)\<rparr>"

text \<open>The updater of a run with the default directory, and the tree of the example after
  the download and after the whole run.\<close>

definition example_updater :: updater where
  "example_updater =
     \<lparr>repository = ''pjotrsavitski/sherpa-helper'', token = ''tok'', directory = ''sherpa4selfie''\<rparr>"

definition downloaded_tree :: node where
  "downloaded_tree =
     app_tree [(''sherpa4selfie'',
                  Directory [(''old.txt'', RegularFile ''old''),
                             (''sub'', Directory [(''x'', RegularFile ''1'')])]),
                 (''dist.zip'', RegularFile ''ZIP'')]"

definition replaced_tree :: node where
  "replaced_tree =
     app_tree [(''sherpa4selfie'',
                  Directory [(''foo.txt'', RegularFile ''abcd''),
                             (''bar'', Directory [(''baz.txt'', RegularFile [])])])]"

section \<open>Properties\<close>

subsection \<open>Selection of the artifact\<close>

lemma latest_loop_none:
  "\<forall>x\<in>set as. \<not> (Name x = ''sherpa4selfie'' \<and> \<not> Expired x) \<Longrightarrow>
   latest_loop as r e = (r, e)"
  by (induction as) auto

lemma latest_loop_first:
  "\<forall>x\<in>set pre. \<not> (Name x = ''sherpa4selfie'' \<and> \<not> Expired x) \<Longrightarrow>
   Name a = ''sherpa4selfie'' \<Longrightarrow> \<not> Expired a \<Longrightarrow>
   latest_loop (pre @ a # post) r e = (a, None)"
  by (induction pre) auto

text \<open>
  Claim C2, as amended.  \<^verbatim>\<open>LatestActiveSherpaArtifact\<close> reads the artifacts in the order
  received and returns the first one whose name is \<^verbatim>\<open>sherpa4selfie\<close> and which is not
  expired, whatever follows it.  When no artifact qualifies it returns the zero artifact
  and the error \<^verbatim>\<open>no suitable artifacts found\<close>, a fixed message.
\<close>

theorem LatestActiveSherpaArtifact_first_match:
  "(Artifacts c = pre @ a # post \<and>
    (\<forall>x\<in>set pre. \<not> (Name x = ''sherpa4selfie'' \<and> \<not> Expired x)) \<and>
    Name a = ''sherpa4selfie'' \<and> \<not> Expired a
      \<longrightarrow> LatestActiveSherpaArtifact c = (a, None)) \<and>
   ((\<forall>x\<in>set (Artifacts c). \<not> (Name x = ''sherpa4selfie'' \<and> \<not> Expired x))
      \<longrightarrow> LatestActiveSherpaArtifact c =
            (zero_artifact, Some (ErrorString ''no suitable artifacts found'')))"
  by (simp add: LatestActiveSherpaArtifact_def latest_loop_none latest_loop_first)

text \<open>On the example catalogue, whose first artifact is expired and whose second and
  third both qualify, the second is returned; a catalogue with an expired artifact only
  gives the error.\<close>

theorem LatestActiveSherpaArtifact_first_match_witness:
  "LatestActiveSherpaArtifact example_catalog = (example_artifact False ''https://dl/1'', None) \<and>
   LatestActiveSherpaArtifact \<lparr>Count = 1, Artifacts = [example_artifact True ''https://dl/0'']\<rparr> =
     (zero_artifact, Some (ErrorString ''no suitable artifacts found''))"
  using LatestActiveSherpaArtifact_first_match
          [of example_catalog "[example_artifact True ''https://dl/0'']"
              "example_artifact False ''https://dl/1''" "[example_artifact False ''https://dl/2'']"]
        LatestActiveSherpaArtifact_first_match
          [of "\<lparr>Count = 1, Artifacts = [example_artifact True ''https://dl/0'']\<rparr>" "[]"
              zero_artifact "[]"]
  by (simp add: example_catalog_def example_artifact_def)

text \<open>Claim C2 as stated has the error carry the name that was searched for.  The error
  of the empty catalogue is the fixed message, and the name does not occur in it.\<close>

theorem LatestActiveSherpaArtifact_error_counterexample:
  "snd (LatestActiveSherpaArtifact \<lparr>Count = 0, Artifacts = []\<rparr>) =
     Some (ErrorString ''no suitable artifacts found'') \<and>
   \<not> sublist ''sherpa4selfie'' ''no suitable artifacts found''"
proof -
  have "\<not> sublist ''sherpa4selfie'' ''no suitable artifacts found''" by code_simp
  then show ?thesis by (simp add: LatestActiveSherpaArtifact_def)
qed

subsection \<open>The size of an artifact\<close>

lemma bit_length_le: "m < 2 ^ k \<Longrightarrow> bit_length m \<le> k"
proof (induction k arbitrary: m)
  case 0
  then show ?case by (simp add: bit_length.simps)
next
  case (Suc k)
  show ?case
  proof (cases "m = 0")
    case True
    then show ?thesis by (simp add: bit_length.simps)
  next
    case False
    from Suc.prems have "m div 2 < 2 ^ k" by simp
    then have "bit_length (m div 2) \<le> k" by (rule Suc.IH)
    with False show ?thesis by (subst bit_length.simps) simp
  qed
qed

lemma float64_of_int_exact:
  assumes "\<bar>n\<bar> < 2 ^ 53"
  shows "float64_of_int n = of_int n"
proof -
  have "nat \<bar>n\<bar> < 2 ^ 53" using assms by (simp add: nat_less_iff)
  then have "bit_length (nat \<bar>n\<bar>) - 53 = 0"
    using bit_length_le [of "nat \<bar>n\<bar>" 53] by simp
  then have "float64_of_int n = of_int (sgn n * int (nat \<bar>n\<bar>))"
    by (simp add: float64_of_int_def Let_def)
  also have "sgn n * int (nat \<bar>n\<bar>) = n"
    by (simp add: mult_sgn_abs)
  finally show ?thesis .
qed

text \<open>
  Claim C10.  For a size \<open>n\<close> with \<open>1024 ^ 3 < n \<le> 1024 ^ 4\<close>, \<^verbatim>\<open>Size\<close> returns the integer
  quotient of \<open>n\<close> by \<open>1024 ^ 3\<close> (the fraction is cut off before the conversion to
  \<^verbatim>\<open>float64\<close>) with the unit \<^verbatim>\<open>gigabytes\<close>.  In the kilobytes, megabytes and terabytes
  branches the division is done on \<^verbatim>\<open>float64\<close> values and the magnitude is the exact
  quotient, fraction included (for terabytes as long as \<open>n\<close> is below \<open>2 ^ 53\<close>, where the
  conversion of \<open>n\<close> is exact).
\<close>

theorem Size_gigabytes_integer_division:
  "(1024 ^ 3 < sint (SizeInBytes a) \<and> sint (SizeInBytes a) \<le> 1024 ^ 4 \<longrightarrow>
      Size a = (of_int (sint (SizeInBytes a) div 1024 ^ 3), ''gigabytes'')) \<and>
   (1024 < sint (SizeInBytes a) \<and> sint (SizeInBytes a) \<le> 1024 ^ 2 \<longrightarrow>
      Size a = (of_int (sint (SizeInBytes a)) / 1024, ''kilobytes'')) \<and>
   (1024 ^ 2 < sint (SizeInBytes a) \<and> sint (SizeInBytes a) \<le> 1024 ^ 3 \<longrightarrow>
      Size a = (of_int (sint (SizeInBytes a)) / 1024 ^ 2, ''megabytes'')) \<and>
   (1024 ^ 4 < sint (SizeInBytes a) \<and> sint (SizeInBytes a) < 2 ^ 53 \<longrightarrow>
      Size a = (of_int (sint (SizeInBytes a)) / 1024 ^ 4, ''terabytes''))"
proof -
  let ?n = "sint (SizeInBytes a)"
  have gb: "Size a = (of_int (?n div 1024 ^ 3), ''gigabytes'')"
    if "1024 ^ 3 < ?n" "?n \<le> 1024 ^ 4"
  proof -
    have q: "?n sdiv (1024 * 1024 * 1024) = ?n div 1024 ^ 3"
      using that by (simp add: signed_divide_int_def sgn_if)
    have "?n div 1024 ^ 3 \<le> 1024" "0 \<le> ?n div 1024 ^ 3" using that by simp_all
    then have "\<bar>?n div 1024 ^ 3\<bar> < 2 ^ 53" by simp
    then have "float64_of_int (?n div 1024 ^ 3) = of_int (?n div 1024 ^ 3)"
      by (rule float64_of_int_exact)
    with that q show ?thesis by (simp add: Size_def Let_def)
  qed
  have c: "float64_of_int 1024 = 1024" "float64_of_int (1024 * 1024) = 1024 ^ 2"
    "float64_of_int (1024 * 1024 * 1024 * 1024) = 1024 ^ 4"
    by (simp_all add: float64_of_int_exact)
  have ex: "float64_of_int ?n = of_int ?n" if "0 < ?n" "?n < 2 ^ 53"
    using that by (intro float64_of_int_exact) simp
  have kb: "Size a = (of_int ?n / 1024, ''kilobytes'')" if "1024 < ?n" "?n \<le> 1024 ^ 2"
    using that ex c by (simp add: Size_def Let_def)
  have mb: "Size a = (of_int ?n / 1024 ^ 2, ''megabytes'')" if "1024 ^ 2 < ?n" "?n \<le> 1024 ^ 3"
    using that ex c by (simp add: Size_def Let_def)
  have tb: "Size a = (of_int ?n / 1024 ^ 4, ''terabytes'')" if "1024 ^ 4 < ?n" "?n < 2 ^ 53"
    using that ex c by (simp add: Size_def Let_def)
  from gb kb mb tb show ?thesis by blast
qed

text \<open>One and a half gibibytes are reported as 1 gigabyte; one and a half of the other
  units as 3/2.\<close>

theorem Size_gigabytes_integer_division_witness:
  "Size (zero_artifact\<lparr>SizeInBytes := 1610612736\<rparr>) = (1, ''gigabytes'') \<and>
   Size (zero_artifact\<lparr>SizeInBytes := 1536\<rparr>) = (3 / 2, ''kilobytes'') \<and>
   Size (zero_artifact\<lparr>SizeInBytes := 1572864\<rparr>) = (3 / 2, ''megabytes'') \<and>
   Size (zero_artifact\<lparr>SizeInBytes := 1649267441664\<rparr>) = (3 / 2, ''terabytes'')"
  using Size_gigabytes_integer_division [of "zero_artifact\<lparr>SizeInBytes := 1610612736\<rparr>"]
        Size_gigabytes_integer_division [of "zero_artifact\<lparr>SizeInBytes := 1536\<rparr>"]
        Size_gigabytes_integer_division [of "zero_artifact\<lparr>SizeInBytes := 1572864\<rparr>"]
        Size_gigabytes_integer_division [of "zero_artifact\<lparr>SizeInBytes := 1649267441664\<rparr>"]
  by (simp add: zero_artifact_def)

subsection \<open>Fields of the example world and of a world after printing\<close>

lemma example_world_fields [simp]:
  "root (example_world t c z) = t"
  "cwd (example_world t c z) = [''home'', ''app'']"
  "handles (example_world t c z) = {#}"
  "requests (example_world t c z) = []"
  "stdout (example_world t c z) = []"
  "fault (example_world t c z) call = None"
  "parse_url (example_world t c z) url =
     (if CHR 0x7F \<in> set url then Some (LibError ''net/url: invalid control character in URL'')
      else None)"
  "transport (example_world t c z) = example_transport"
  "unmarshal (example_world t c z) b d =
     (if b = ''JSON'' then (c, None) else (d, Some (LibError ''invalid character'')))"
  "zip_directory (example_world t c z) b =
     (if b = ''ZIP'' then Inr z else Inl (LibError ''zip: not a valid zip file''))"
  by (simp_all add: example_world_def)

lemma emit_fields [simp]:
  "root (emit x w) = root w"
  "cwd (emit x w) = cwd w"
  "handles (emit x w) = handles w"
  "requests (emit x w) = requests w"
  "stdout (emit x w) = stdout w @ [x]"
  "fault (emit x w) = fault w"
  "parse_url (emit x w) = parse_url w"
  "transport (emit x w) = transport w"
  "unmarshal (emit x w) = unmarshal w"
  "zip_directory (emit x w) = zip_directory w"
  by (simp_all add: emit_def)

subsection \<open>Requests that cannot be built\<close>

text \<open>
  Claim C9.  In \<^verbatim>\<open>Artifacts\<close> and in \<^verbatim>\<open>DownloadFile\<close> the authorization header is added
  before the error of \<^verbatim>\<open>http.NewRequest\<close> is looked at.  Whenever \<^verbatim>\<open>http.NewRequest\<close>
  returns \<^verbatim>\<open>nil\<close> and an error, either function panics on the \<^verbatim>\<open>nil\<close> request and does not
  return the error; nothing has been sent or changed by then.
\<close>

theorem nil_request_panics:
  "(http_NewRequest ''GET'' (RepositoryURL u) w = (None, Some e) \<longrightarrow>
      updater_Artifacts u w = (Panic, w)) \<and>
   (http_NewRequest ''GET'' url w = (None, Some e) \<longrightarrow>
      DownloadFile u url fileName w = (Panic, w))"
  by (simp add: updater_Artifacts_def DownloadFile_def)

text \<open>A repository name and a download URL with a DEL character, which
  \<^verbatim>\<open>http.NewRequest\<close> rejects.\<close>

theorem nil_request_panics_witness:
  "updater_Artifacts \<lparr>repository = [CHR 0x7F], token = ''t'', directory = ''d''\<rparr>
     (example_world example_tree example_catalog example_archive) =
       (Panic, example_world example_tree example_catalog example_archive) \<and>
   DownloadFile \<lparr>repository = ''r'', token = ''t'', directory = ''d''\<rparr> [CHR 0x7F] ''dist.zip''
     (example_world example_tree example_catalog example_archive) =
       (Panic, example_world example_tree example_catalog example_archive)"
  using nil_request_panics
          [of "\<lparr>repository = [CHR 0x7F], token = ''t'', directory = ''d''\<rparr>"
              "example_world example_tree example_catalog example_archive"
              "LibError ''net/url: invalid control character in URL''"
              "[CHR 0x7F]"]
        nil_request_panics
          [of "\<lparr>repository = ''r'', token = ''t'', directory = ''d''\<rparr>"
              "example_world example_tree example_catalog example_archive"
              "LibError ''net/url: invalid control character in URL''"
              "[CHR 0x7F]" "''dist.zip''"]
  by (simp add: http_NewRequest_def RepositoryURL_def)

subsection \<open>The runs of \<^verbatim>\<open>main\<close> that end early\<close>

lemma updater_Artifacts_returns:
  assumes "updater_Artifacts u w = (Returned (c, None), w1)"
  shows "w1 = w\<lparr>requests := requests w @
            [\<lparr>Method = ''GET'', RequestURL = RepositoryURL u,
              Header = [(''Authorization'', ''Bearer '' @ token u)]\<rparr>]\<rparr>"
  using assms
  by (auto simp: updater_Artifacts_def http_NewRequest_def client_Do_def Close_def acquire_def
        Let_def split: option.splits sum.splits if_splits prod.splits)

lemma example_listing:
  "updater_Artifacts \<lparr>repository = ''pjotrsavitski/sherpa-helper'', token = t, directory = d\<rparr>
     (emit x (example_world tr c z)) =
   (Returned (c, None),
    (emit x (example_world tr c z))\<lparr>requests :=
       [\<lparr>Method = ''GET'',
         RequestURL = ''https://api.github.com/repos/pjotrsavitski/sherpa-helper/actions/artifacts'',
         Header = [(''Authorization'', ''Bearer '' @ t)]\<rparr>]\<rparr>)"
  by (simp add: updater_Artifacts_def http_NewRequest_def RepositoryURL_def client_Do_def
        example_transport_def ioutil_ReadAll_def json_Unmarshal_def zero_artifacts_def
        Close_def acquire_def)

lemma no_flags_fields [simp]:
  "flag_r no_flags = None" "flag_t no_flags = None" "flag_d no_flags = None"
  by (simp_all add: no_flags_def)

lemma flag_Parse_examples:
  "flag_Parse [] no_flags = Inr no_flags"
  "flag_Parse [''-t'', ''tok''] no_flags = Inr \<lparr>flag_r = None, flag_t = Some ''tok'', flag_d = None\<rparr>"
  "flag_Parse [''-r'', ''o/n'', ''--t='', ''-d'', ''d''] no_flags =
     Inr \<lparr>flag_r = Some ''o/n'', flag_t = Some [], flag_d = Some ''d''\<rparr>"
  "flag_Parse [''-r'', ''o/n'', ''-d'', ''d'', ''-t''] no_flags = Inl (NeedsArgument ''t'')"
  by (simp_all add: no_flags_def set_flag_def)




text \<open>
  Claim C3.  \<^verbatim>\<open>HasArtifacts\<close> is true exactly when the reported count is greater than
  zero, whatever the list of artifacts is.  In a run whose parameters are all there and
  whose listing is fetched and decoded with a count of 0, \<open>main\<close> prints \<^verbatim>\<open>No artifacts
  found!\<close> and \<^verbatim>\<open>All done\<close> and returns with exit status 0; the listing is the only request
  of the run, and neither the file tree nor the open handles have changed.
\<close>

theorem main_nothing_to_do:
  assumes "flag_Parse args no_flags = Inr given"
    and "flag_value (flag_r given) ''pjotrsavitski/sherpa-helper'' = r" "r \<noteq> []"
    and "flag_value (flag_t given) [] = t" "t \<noteq> []"
    and "flag_value (flag_d given) ''sherpa4selfie'' = d" "d \<noteq> []"
    and "updater_Artifacts \<lparr>repository = r, token = t, directory = d\<rparr>
           (emit (Println [''Downloading artifacts data, please wait ...'']) w) =
         (Returned (c, None), w1)"
    and "Count c = 0"
  shows "(\<forall>n xs. HasArtifacts \<lparr>Count = n, Artifacts = xs\<rparr> = (0 < sint n)) \<and>
         \<not> HasArtifacts c \<and>
         main args w =
           (0, emit (Println [colorGreen, ''All done'', colorReset])
                 (emit (Println [colorBlue, ''No artifacts found!'', colorReset]) w1)) \<and>
         requests (snd (main args w)) = requests w @
           [\<lparr>Method = ''GET'',
             RequestURL = ''https://api.github.com/repos/'' @ r @ ''/actions/artifacts'',
             Header = [(''Authorization'', ''Bearer '' @ t)]\<rparr>] \<and>
         root (snd (main args w)) = root w \<and>
         handles (snd (main args w)) = handles w"
proof -
  have h: "\<not> HasArtifacts c" using assms(9) by (simp add: HasArtifacts_def)
  have m: "main args w =
           (0, emit (Println [colorGreen, ''All done'', colorReset])
                 (emit (Println [colorBlue, ''No artifacts found!'', colorReset]) w1))"
    using assms(1-8) h by (simp add: main_def Let_def)
  have w1: "w1 = (emit (Println [''Downloading artifacts data, please wait ...'']) w)
      \<lparr>requests := requests (emit (Println [''Downloading artifacts data, please wait ...'']) w) @
            [\<lparr>Method = ''GET'',
              RequestURL = RepositoryURL \<lparr>repository = r, token = t, directory = d\<rparr>,
              Header = [(''Authorization'', ''Bearer '' @ t)]\<rparr>]\<rparr>"
    using updater_Artifacts_returns [OF assms(8)] by simp
  show ?thesis
    using h m by (simp add: HasArtifacts_def) (simp add: w1 RepositoryURL_def)
qed

text \<open>A catalogue that reports a count of 0 and yet lists an artifact that would
  qualify.\<close>

theorem main_nothing_to_do_witness:
  "\<not> HasArtifacts \<lparr>Count = 0, Artifacts = [example_artifact False ''https://dl/1'']\<rparr> \<and>
   fst (main [''-t'', ''tok'']
     (example_world example_tree
        \<lparr>Count = 0, Artifacts = [example_artifact False ''https://dl/1'']\<rparr> example_archive)) = 0 \<and>
   map RequestURL (requests (snd (main [''-t'', ''tok'']
     (example_world example_tree
        \<lparr>Count = 0, Artifacts = [example_artifact False ''https://dl/1'']\<rparr> example_archive)))) =
     [''https://api.github.com/repos/pjotrsavitski/sherpa-helper/actions/artifacts''] \<and>
   root (snd (main [''-t'', ''tok'']
     (example_world example_tree
        \<lparr>Count = 0, Artifacts = [example_artifact False ''https://dl/1'']\<rparr> example_archive))) =
     example_tree"
  using main_nothing_to_do
     [of "[''-t'', ''tok'']" "\<lparr>flag_r = None, flag_t = Some ''tok'', flag_d = None\<rparr>"
         "''pjotrsavitski/sherpa-helper''"
         "''tok''" "''sherpa4selfie''"
         "example_world example_tree
            \<lparr>Count = 0, Artifacts = [example_artifact False ''https://dl/1'']\<rparr> example_archive"
         "\<lparr>Count = 0, Artifacts = [example_artifact False ''https://dl/1'']\<rparr>",
      OF flag_Parse_examples(2) _ _ _ _ _ _ example_listing]
  by (simp add: flag_value_def HasArtifacts_def del: flag_Parse.simps)

subsection \<open>\<^verbatim>\<open>unzip\<close>: the loop over the entries\<close>

lemmas path_eval = filepath_Join_def filepath_Clean_def filepath_Dir_def clean_step_def
  strings_HasPrefix_def os_PathSeparator_def path_Join_def

lemmas os_eval = resolve_def start_of_def locate_def os_Stat_def os_Mkdir_def ioutil_ReadDir_def
  os_RemoveAll_def os_Remove_def os_MkdirAll_def os_OpenFile_def os_Create_def
  zip_OpenReader_def zipFile_Open_def acquire_def Close_def




subsection \<open>\<^verbatim>\<open>unzip\<close>: two returns that the claims do not allow for\<close>

text \<open>
  Claim C8 has every handle closed when the function that opened it returns.  When
  \<^verbatim>\<open>f.Open()\<close> fails, \<^verbatim>\<open>unzip\<close> returns the error while the output file that it has just
  opened is still open: here the archive's only entry cannot be opened, and after the
  return the handle of \<^verbatim>\<open>/home/app/out/a.txt\<close> is left.
\<close>

theorem unzip_leaks_output_file:
  "unzip ''dist.zip'' ''out''
     (example_world (app_tree [(''dist.zip'', RegularFile ''ZIP''), (''out'', Directory [])])
        example_catalog unreadable_archive) =
   (([''out/a.txt''], Some (LibError ''zip: unsupported compression algorithm'')),
    (example_world (app_tree [(''dist.zip'', RegularFile ''ZIP''), (''out'', Directory [])])
        example_catalog unreadable_archive)
     \<lparr>root := app_tree [(''dist.zip'', RegularFile ''ZIP''),
                        (''out'', Directory [(''a.txt'', RegularFile [])])],
      handles := {#FileHandle [''home'', ''app'', ''out'', ''a.txt'']#}\<rparr>)"
  by (simp add: unzip_def unreadable_archive_def path_eval os_eval app_tree_def)

text \<open>
  Claim C4 has \<^verbatim>\<open>unzip\<close> reproduce the directories of the archive.  The result of
  \<^verbatim>\<open>os.MkdirAll\<close> for a directory entry is dropped: here the destination holds a regular
  file \<^verbatim>\<open>d\<close> where the archive has the directory \<^verbatim>\<open>d/\<close>; \<^verbatim>\<open>unzip\<close> returns no error and lists
  \<^verbatim>\<open>out/d\<close>, and the tree is as it was, with \<^verbatim>\<open>out/d\<close> still the old file.
\<close>

theorem unzip_ignores_mkdir_failure:
  "unzip ''dist.zip'' ''out''
     (example_world (app_tree [(''dist.zip'', RegularFile ''ZIP''),
                               (''out'', Directory [(''d'', RegularFile ''old'')])])
        example_catalog directory_archive) =
   (([''out/d''], None),
    example_world (app_tree [(''dist.zip'', RegularFile ''ZIP''),
                               (''out'', Directory [(''d'', RegularFile ''old'')])])
        example_catalog directory_archive)"
  by (simp add: unzip_def directory_archive_def path_eval os_eval app_tree_def)

subsection \<open>The tree: looking up after a change\<close>

lemma lookup_append:
  "lookup t (p @ q) = (case lookup t p of None \<Rightarrow> None | Some n \<Rightarrow> lookup n q)"
  by (induction t p rule: lookup.induct) (auto split: option.splits)

lemma lookup_file_below [simp]: "lookup (RegularFile b) p = (if p = [] then Some (RegularFile b) else None)"
  by (cases p) auto

lemma lookup_parent_dir:
  assumes "lookup t (p @ c # q) = Some n"
  shows "is_dir_at t p"
proof -
  from assms obtain m where m: "lookup t p = Some m" "lookup m (c # q) = Some n"
    by (auto simp: lookup_append split: option.splits)
  then show ?thesis by (cases m) (auto simp: is_dir_at_def)
qed

lemma is_dir_at_prefix:
  assumes "is_dir_at t q" "prefix p q"
  shows "is_dir_at t p"
proof (cases "p = q")
  case True
  with assms show ?thesis by simp
next
  case False
  with assms(2) obtain c r where "q = p @ c # r"
    by (metis prefixE neq_Nil_conv append_Nil2)
  with assms(1) show ?thesis
    by (auto simp: is_dir_at_def split: option.splits node.splits dest: lookup_parent_dir[unfolded is_dir_at_def])
qed

lemma is_dir_at_butlast: "is_dir_at t p \<Longrightarrow> is_dir_at t (butlast p)"
  by (rule is_dir_at_prefix) (auto simp: prefixeq_butlast)

lemma map_of_update_if: "map_of (AList.update k v al) k' = (if k' = k then Some v else map_of al k')"
  by (simp add: update_conv')

lemma map_of_delete_if: "map_of (AList.delete k al) k' = (if k' = k then None else map_of al k')"
  by (simp add: delete_conv')

text \<open>A change at \<open>p\<close> is not seen at a location that is neither below nor above \<open>p\<close>.\<close>

lemma lookup_alter_other:
  "\<not> prefix p q \<Longrightarrow> \<not> prefix q p \<Longrightarrow> lookup (alter p f t) q = lookup t q"
proof (induction p f t arbitrary: q rule: alter.induct)
  case (1 f t)
  then show ?case by simp
next
  case (2 c p f b)
  then show ?case by simp
next
  case (3 c f es)
  then show ?case
    by (cases q) (auto simp: map_of_update_if map_of_delete_if split: option.splits)
next
  case (4 c d p f es)
  show ?case
  proof (cases q)
    case Nil
    with 4 show ?thesis by simp
  next
    case (Cons c' q')
    show ?thesis
    proof (cases "map_of es c")
      case None
      then show ?thesis by simp
    next
      case (Some n)
      show ?thesis
      proof (cases "c' = c")
        case True
        with 4(2,3) Cons have "\<not> prefix (d # p) q'" "\<not> prefix q' (d # p)" by auto
        then have "lookup (alter (d # p) f n) q' = lookup n q'"
          using 4(1) [OF Some] by blast
        with Some True Cons show ?thesis by (simp add: map_of_update_if)
      next
        case False
        with Some Cons show ?thesis by (simp add: map_of_update_if)
      qed
    qed
  qed
qed

lemma is_dir_at_alter_above:
  "strict_prefix q p \<Longrightarrow> is_dir_at (alter p f t) q = is_dir_at t q"
proof (induction p f t arbitrary: q rule: alter.induct)
  case (1 f t)
  then show ?case by simp
next
  case (2 c p f b)
  then show ?case by simp
next
  case (3 c f es)
  then have "q = []" by (cases q) (auto simp: strict_prefix_def)
  then show ?case by (auto simp: is_dir_at_def split: option.splits)
next
  case (4 c d p f es)
  show ?case
  proof (cases q)
    case Nil
    then show ?thesis by (auto simp: is_dir_at_def split: option.splits)
  next
    case (Cons c' q')
    with 4(2) have c: "c' = c" and sp: "strict_prefix q' (d # p)"
      by (auto simp: strict_prefix_def)
    show ?thesis
    proof (cases "map_of es c")
      case None
      then show ?thesis by simp
    next
      case (Some n)
      have "is_dir_at (alter (d # p) f n) q' = is_dir_at n q'"
        using 4(1) [OF Some sp] .
      with Some c Cons show ?thesis by (simp add: is_dir_at_def map_of_update_if)
    qed
  qed
qed

lemma lookup_alter_at:
  "p \<noteq> [] \<Longrightarrow> is_dir_at t (butlast p) \<Longrightarrow>
   lookup (alter p f t) (p @ r) = (case f (lookup t p) of None \<Rightarrow> None | Some v \<Rightarrow> lookup v r)"
proof (induction p f t rule: alter.induct)
  case (1 f t)
  then show ?case by simp
next
  case (2 c p f b)
  then show ?case by (cases p) (auto simp: is_dir_at_def)
next
  case (3 c f es)
  then show ?case
    by (auto simp: map_of_update_if map_of_delete_if split: option.splits)
next
  case (4 c d p f es)
  show ?case
  proof (cases "map_of es c")
    case None
    with 4(3) show ?thesis by (simp add: is_dir_at_def)
  next
    case (Some n)
    from 4(3) Some have "is_dir_at n (butlast (d # p))"
      by (simp add: is_dir_at_def)
    then have "lookup (alter (d # p) f n) ((d # p) @ r) =
               (case f (lookup n (d # p)) of None \<Rightarrow> None | Some v \<Rightarrow> lookup v r)"
      using 4(1) [OF Some] by simp
    with Some show ?thesis by (simp add: map_of_update_if)
  qed
qed

lemma alter_no_parent:
  "p \<noteq> [] \<Longrightarrow> \<not> is_dir_at t (butlast p) \<Longrightarrow> alter p f t = t"
proof (induction p f t rule: alter.induct)
  case (1 f t)
  then show ?case by simp
next
  case (2 c p f b)
  then show ?case by simp
next
  case (3 c f es)
  then show ?case by (simp add: is_dir_at_def)
next
  case (4 c d p f es)
  show ?case
  proof (cases "map_of es c")
    case None
    then show ?thesis by simp
  next
    case (Some n)
    from 4(3) Some have "\<not> is_dir_at n (butlast (d # p))" by (simp add: is_dir_at_def)
    then have "alter (d # p) f n = n" using 4(1) [OF Some] by simp
    with Some show ?thesis by (simp add: update_triv)
  qed
qed

subsection \<open>Path elements and cleaning\<close>

lemma split_path_nonempty [simp]: "split_path s \<noteq> []"
  by (induction s) (auto split: list.splits)

lemma split_path_Cons:
  "split_path (c # s) =
     (if c = CHR ''/'' then [] # split_path s
      else (c # hd (split_path s)) # tl (split_path s))"
  by (cases "split_path s") auto

lemma split_path_slash_free: "c \<in> set (split_path s) \<Longrightarrow> CHR ''/'' \<notin> set c"
proof (induction s arbitrary: c)
  case Nil
  then show ?case by simp
next
  case (Cons a s)
  obtain x xs where x: "split_path s = x # xs" by (cases "split_path s") auto
  show ?case
  proof (cases "a = CHR ''/''")
    case True
    with Cons show ?thesis by auto
  next
    case False
    with Cons x show ?thesis by auto
  qed
qed

lemma split_path_append: "split_path (a @ CHR ''/'' # b) = split_path a @ split_path b"
proof (induction a)
  case Nil
  then show ?case by simp
next
  case (Cons c a)
  then show ?case by (cases "split_path a") auto
qed

lemma split_path_single: "CHR ''/'' \<notin> set c \<Longrightarrow> split_path c = [c]"
  by (induction c) auto

lemma split_join_path:
  "cs \<noteq> [] \<Longrightarrow> \<forall>c\<in>set cs. CHR ''/'' \<notin> set c \<Longrightarrow> split_path (join_path cs) = cs"
proof (induction cs rule: join_path.induct)
  case 1
  then show ?case by simp
next
  case (2 x)
  then show ?case by (simp add: split_path_single)
next
  case (3 x y xs)
  then show ?case by (simp add: split_path_append split_path_single)
qed

lemma lex_append: "lexical cur (a @ b) = lexical (lexical cur a) b"
  by (induction a arbitrary: cur) auto

lemma lex_dotdots: "lexical cur (replicate k ''..'') = (butlast ^^ k) cur"
  by (induction k arbitrary: cur) (auto simp: funpow_swap1)

lemma lex_names: "list_all real_name names \<Longrightarrow> lexical cur names = cur @ names"
  by (induction names arbitrary: cur) (auto simp: real_name_def)

lemma normal_Nil [simp]: "normal r []"
  by (auto simp: normal_def intro: exI[of _ 0])

lemma real_name_slash_free: "real_name c \<Longrightarrow> CHR ''/'' \<notin> set c"
  by (simp add: real_name_def)

lemma real_name_not_special: "real_name c \<Longrightarrow> c \<noteq> [] \<and> c \<noteq> ''.'' \<and> c \<noteq> ''..''"
  by (simp add: real_name_def)

lemma normal_cases:
  assumes "normal r cs" "c \<in> set cs"
  shows "c = ''..'' \<or> real_name c"
  using assms by (auto simp: normal_def list_all_iff)

lemma normal_slash_free: "normal r cs \<Longrightarrow> c \<in> set cs \<Longrightarrow> CHR ''/'' \<notin> set c"
  by (drule (1) normal_cases) (auto dest: real_name_slash_free)

lemma normal_hd: "normal r cs \<Longrightarrow> c \<in> set cs \<Longrightarrow> c \<noteq> [] \<and> c \<noteq> ''.''"
  by (drule (1) normal_cases) (auto dest: real_name_not_special)

lemma clean_step_normal:
  assumes "normal r acc" "CHR ''/'' \<notin> set c"
  shows "normal r (clean_step r acc c)"
proof -
  from assms(1) obtain k names where acc: "acc = replicate k ''..'' @ names"
    "list_all real_name names" "r \<longrightarrow> k = 0"
    by (auto simp: normal_def)
  consider (skip) "c = [] \<or> c = ''.''" | (up) "c = ''..''" | (name) "real_name c"
    using assms(2) by (auto simp: real_name_def)
  then show ?thesis
  proof cases
    case skip
    with assms(1) show ?thesis by (auto simp: clean_step_def)
  next
    case name
    then have "clean_step r acc c = replicate k ''..'' @ (names @ [c])"
      using acc by (auto simp: clean_step_def real_name_def)
    with acc name show ?thesis unfolding normal_def
      by (intro exI[of _ k] exI[of _ "names @ [c]"]) auto
  next
    case up
    show ?thesis
    proof (cases "names = []")
      case True
      show ?thesis
      proof (cases r)
        case True
        with acc \<open>names = []\<close> up show ?thesis by (simp add: clean_step_def)
      next
        case False
        have "clean_step r acc c = replicate (Suc k) ''..'' @ []"
          using acc \<open>names = []\<close> up False
          by (cases k) (auto simp: clean_step_def replicate_append_same)
        with False show ?thesis unfolding normal_def
          by (intro exI[of _ "Suc k"] exI[of _ "[]"]) auto
      qed
    next
      case False
      then have l: "last acc = last names" "acc \<noteq> []" using acc by auto
      from False acc(2) have "real_name (last names)" by (auto simp: list_all_iff)
      then have "last names \<noteq> ''..''" by (auto simp: real_name_def)
      with l up have "clean_step r acc c = replicate k ''..'' @ butlast names"
        using acc False by (simp add: clean_step_def butlast_append)
      moreover have "list_all real_name (butlast names)"
        using acc(2) by (auto simp: list_all_iff dest: in_set_butlastD)
      ultimately show ?thesis using acc(3) unfolding normal_def
        by (intro exI[of _ k] exI[of _ "butlast names"]) auto
    qed
  qed
qed

lemma foldl_clean_step_normal:
  "normal r acc \<Longrightarrow> \<forall>c\<in>set cs. CHR ''/'' \<notin> set c \<Longrightarrow> normal r (foldl (clean_step r) acc cs)"
  by (induction cs arbitrary: acc) (auto simp: clean_step_normal)

lemma lex_normal:
  assumes "cs = replicate k ''..'' @ names" "list_all real_name names"
  shows "lexical cur cs = (butlast ^^ k) cur @ names"
  using assms by (simp add: lex_append lex_dotdots lex_names)

lemma lex_clean_step:
  assumes "normal r acc" "r \<longrightarrow> start = []"
  shows "lexical start (clean_step r acc c) = lexical (lexical start acc) [c]"
proof -
  from assms(1) obtain k names where acc: "acc = replicate k ''..'' @ names"
    "list_all real_name names" "r \<longrightarrow> k = 0"
    by (auto simp: normal_def)
  show ?thesis
  proof (cases "c = ''..''")
    case False
    then show ?thesis by (auto simp: clean_step_def lex_append)
  next
    case True
    show ?thesis
    proof (cases "names = []")
      case True
      have "\<not> (acc \<noteq> [] \<and> last acc \<noteq> ''..'')" using acc True by (cases k) auto
      then have cs: "clean_step r acc c = (if r then acc else acc @ [''..''])"
        using \<open>c = ''..''\<close> by (auto simp: clean_step_def)
      show ?thesis
      proof (cases r)
        case True
        with acc assms(2) \<open>names = []\<close> \<open>c = ''..''\<close> cs show ?thesis by simp
      next
        case False
        with cs \<open>c = ''..''\<close> show ?thesis by (simp add: lex_append)
      qed
    next
      case False
      then have l: "last acc = last names" "acc \<noteq> []" using acc by auto
      from False acc(2) have "real_name (last names)" by (auto simp: list_all_iff)
      then have ll: "last names \<noteq> ''..''" by (auto simp: real_name_def)
      have b: "list_all real_name (butlast names)"
        using acc(2) by (auto simp: list_all_iff dest: in_set_butlastD)
      have "clean_step r acc c = replicate k ''..'' @ butlast names"
        using l ll \<open>c = ''..''\<close> acc False by (simp add: clean_step_def butlast_append)
      then have "lexical start (clean_step r acc c) = (butlast ^^ k) start @ butlast names"
        using b by (simp add: lex_normal)
      moreover have "lexical (lexical start acc) [c] = butlast ((butlast ^^ k) start @ names)"
        using acc \<open>c = ''..''\<close> by (simp add: lex_normal)
      ultimately show ?thesis using False by (simp add: butlast_append)
    qed
  qed
qed

lemma lex_foldl_clean_step:
  "normal r acc \<Longrightarrow> r \<longrightarrow> start = [] \<Longrightarrow> \<forall>c\<in>set cs. CHR ''/'' \<notin> set c \<Longrightarrow>
   lexical start (foldl (clean_step r) acc cs) = lexical (lexical start acc) cs"
proof (induction cs arbitrary: acc)
  case Nil
  then show ?case by simp
next
  case (Cons c cs)
  have n: "normal r (clean_step r acc c)" using Cons.prems by (simp add: clean_step_normal)
  have "lexical start (foldl (clean_step r) (clean_step r acc c) cs) =
        lexical (lexical start (clean_step r acc c)) cs"
    using Cons.IH [OF n] Cons.prems by simp
  also have "lexical start (clean_step r acc c) = lexical (lexical start acc) [c]"
    using Cons.prems by (simp add: lex_clean_step)
  finally have "lexical start (foldl (clean_step r) (clean_step r acc c) cs) =
        lexical (lexical (lexical start acc) [c]) cs" .
  moreover have "lexical (lexical start acc) (c # cs) = lexical (lexical (lexical start acc) [c]) cs"
    using lex_append [of "lexical start acc" "[c]" cs] by simp
  ultimately show ?case by simp
qed

subsection \<open>Resolving a cleaned path\<close>

lemma walk_lexical: "walk t cur cs = Inr q \<Longrightarrow> q = lexical cur cs"
  by (induction cs arbitrary: cur) (auto split: option.splits node.splits if_splits)

lemma walk_start_dir: "walk t cur cs = Inr q \<Longrightarrow> cs \<noteq> [] \<Longrightarrow> is_dir_at t cur"
  by (cases cs) (auto simp: is_dir_at_def split: option.splits node.splits)

lemma walk_dotdots:
  "is_dir_at t cur \<Longrightarrow> walk t cur (replicate k ''..'' @ rest) = walk t ((butlast ^^ k) cur) rest"
proof (induction k arbitrary: cur)
  case 0
  then show ?case by simp
next
  case (Suc k)
  from Suc.prems have "is_dir_at t (butlast cur)" by (rule is_dir_at_butlast)
  from Suc.IH [OF this] Suc.prems show ?case
    by (auto simp: is_dir_at_def funpow_swap1 split: option.splits node.splits)
qed

lemma walk_names:
  "list_all real_name names \<Longrightarrow> (names \<noteq> [] \<longrightarrow> is_dir_at t (cur @ butlast names)) \<Longrightarrow>
   walk t cur names = Inr (cur @ names)"
proof (induction names arbitrary: cur)
  case Nil
  then show ?case by simp
next
  case (Cons c names)
  from Cons.prems(2) have d: "is_dir_at t cur"
    by (auto elim: is_dir_at_prefix)
  have "names \<noteq> [] \<longrightarrow> is_dir_at t ((cur @ [c]) @ butlast names)"
    using Cons.prems(2) by auto
  with Cons.IH [of "cur @ [c]"] Cons.prems(1)
  have "walk t (cur @ [c]) names = Inr ((cur @ [c]) @ names)" by simp
  with d Cons.prems(1) show ?case
    by (auto simp: is_dir_at_def real_name_def split: option.splits node.splits)
qed

text \<open>The walk along a normal list of elements.\<close>

lemma walk_normal:
  assumes "cs = replicate k ''..'' @ names" "list_all real_name names"
    and "is_dir_at t cur"
    and "names \<noteq> [] \<longrightarrow> is_dir_at t ((butlast ^^ k) cur @ butlast names)"
  shows "walk t cur cs = Inr ((butlast ^^ k) cur @ names)"
  using assms by (simp add: walk_dotdots walk_names)

text \<open>The elements of a cleaned path, and the walk along them.\<close>

lemma clean_elems_normal: "normal (hd p = CHR ''/'') (clean_elems p)"
  unfolding clean_elems_def
  by (rule foldl_clean_step_normal) (auto dest: split_path_slash_free)

lemma filepath_Clean_elems:
  "p \<noteq> [] \<Longrightarrow> filepath_Clean p =
     (if hd p = CHR ''/'' then CHR ''/'' # join_path (clean_elems p)
      else if clean_elems p = [] then ''.'' else join_path (clean_elems p))"
  by (simp add: filepath_Clean_def clean_elems_def Let_def)

lemma join_path_hd:
  assumes "cs \<noteq> []" "hd cs \<noteq> []"
  shows "join_path cs \<noteq> [] \<and> hd (join_path cs) = hd (hd cs)"
  using assms by (induction cs rule: join_path.induct) auto

lemma walk_clean_elems:
  assumes "p \<noteq> []" "clean_elems p \<noteq> []"
  shows "resolve w (filepath_Clean p) =
         (if is_dir_at (root w) (start_of w p) then walk (root w) (start_of w p) (clean_elems p)
          else (case lookup (root w) (start_of w p) of None \<Rightarrow> Inl ENOENT | Some n \<Rightarrow> Inl ENOTDIR))"
proof -
  let ?cs = "clean_elems p"
  have n: "normal (hd p = CHR ''/'') ?cs" by (rule clean_elems_normal)
  have sf: "\<forall>c\<in>set ?cs. CHR ''/'' \<notin> set c" using n by (auto dest: normal_slash_free)
  have hdne: "hd ?cs \<noteq> []" using n assms(2) normal_hd [of _ ?cs "hd ?cs"] by auto
  have sp: "split_path (join_path ?cs) = ?cs" using assms(2) sf by (rule split_join_path)
  show ?thesis
  proof (cases "hd p = CHR ''/''")
    case True
    then have c: "filepath_Clean p = CHR ''/'' # join_path ?cs"
      using assms(1) by (simp add: filepath_Clean_elems)
    have "start_of w p = []" using True by (simp add: start_of_def)
    then show ?thesis
      using c sp by (auto simp: resolve_def start_of_def is_dir_at_def split: option.splits node.splits)
  next
    case False
    then have c: "filepath_Clean p = join_path ?cs"
      using assms by (simp add: filepath_Clean_elems)
    have h: "hd (hd ?cs) \<noteq> CHR ''/''"
      using sf assms(2) hdne by (cases ?cs; cases "hd ?cs") (auto)
    have j: "join_path ?cs \<noteq> []" "hd (join_path ?cs) = hd (hd ?cs)"
      using join_path_hd [OF assms(2) hdne] by auto
    have s: "start_of w (join_path ?cs) = start_of w p"
      using False h j by (simp add: start_of_def)
    obtain c cs' where cs: "?cs = c # cs'" using assms(2) by (cases ?cs) auto
    show ?thesis
      unfolding c resolve_def using j s sp cs
      by (auto simp: is_dir_at_def split: option.splits node.splits)
  qed
qed

lemma clean_elems_join:
  assumes "dir \<noteq> []" "real_name name"
  shows "clean_elems (dir @ CHR ''/'' # name) = clean_elems dir @ [name]"
  using assms
  by (simp add: clean_elems_def split_path_append split_path_single real_name_def clean_step_def)

lemma resolve_lexical:
  assumes "resolve w p = Inr d"
  shows "p \<noteq> [] \<and> is_dir_at (root w) (start_of w p) \<and> d = lexical (start_of w p) (clean_elems p)"
proof -
  from assms have ne: "p \<noteq> []" and wk: "walk (root w) (start_of w p) (split_path p) = Inr d"
    by (auto simp: resolve_def split: if_splits)
  have "d = lexical (start_of w p) (split_path p)" using wk by (rule walk_lexical)
  also have "\<dots> = lexical (lexical (start_of w p) []) (split_path p)" by simp
  also have "\<dots> = lexical (start_of w p) (clean_elems p)"
    unfolding clean_elems_def
    by (rule lex_foldl_clean_step [symmetric])
       (auto simp: start_of_def dest: split_path_slash_free)
  finally show ?thesis using ne walk_start_dir [OF wk] by simp
qed

lemma resolve_Join:
  assumes r: "resolve w dir = Inr d" and d: "is_dir_at (root w) d" and n: "real_name name"
  shows "resolve w (filepath_Join dir name) = Inr (d @ [name])"
proof -
  from resolve_lexical [OF r] have ne: "dir \<noteq> []"
    and st: "is_dir_at (root w) (start_of w dir)"
    and dl: "d = lexical (start_of w dir) (clean_elems dir)" by auto
  let ?p = "dir @ CHR ''/'' # name"
  have hd: "hd ?p = hd dir" using ne by (cases dir) auto
  then have so: "start_of w ?p = start_of w dir" by (simp add: start_of_def)
  have ce: "clean_elems ?p = clean_elems dir @ [name]" using ne n by (rule clean_elems_join)
  have "normal (hd dir = CHR ''/'') (clean_elems dir)" by (rule clean_elems_normal)
  then obtain k names where kn: "clean_elems dir = replicate k ''..'' @ names"
    "list_all real_name names" by (auto simp: normal_def)
  then have dk: "d = (butlast ^^ k) (start_of w dir) @ names"
    using dl by (simp add: lex_normal)
  have "walk (root w) (start_of w dir) (replicate k ''..'' @ (names @ [name])) =
        Inr ((butlast ^^ k) (start_of w dir) @ (names @ [name]))"
    by (rule walk_normal [OF refl]) (use kn n st d dk in auto)
  then have "walk (root w) (start_of w ?p) (clean_elems ?p) = Inr (d @ [name])"
    using so ce kn dk by simp
  moreover have "resolve w (filepath_Clean ?p) = walk (root w) (start_of w ?p) (clean_elems ?p)"
    using walk_clean_elems [of ?p w] ce st so by simp
  ultimately show ?thesis using ne by (simp add: filepath_Join_def)
qed

subsection \<open>Emptying a directory\<close>

lemma resolve_Join_lexical:
  assumes ne: "dir \<noteq> []" and st: "is_dir_at (root w) (start_of w dir)"
    and dl: "d = lexical (start_of w dir) (clean_elems dir)"
    and d: "is_dir_at (root w) d" and n: "real_name name"
  shows "resolve w (filepath_Join dir name) = Inr (d @ [name])"
proof -
  let ?p = "dir @ CHR ''/'' # name"
  have hd: "hd ?p = hd dir" using ne by (cases dir) auto
  then have so: "start_of w ?p = start_of w dir" by (simp add: start_of_def)
  have ce: "clean_elems ?p = clean_elems dir @ [name]" using ne n by (rule clean_elems_join)
  have "normal (hd dir = CHR ''/'') (clean_elems dir)" by (rule clean_elems_normal)
  then obtain k names where kn: "clean_elems dir = replicate k ''..'' @ names"
    "list_all real_name names" by (auto simp: normal_def)
  then have dk: "d = (butlast ^^ k) (start_of w dir) @ names"
    using dl by (simp add: lex_normal)
  have "walk (root w) (start_of w dir) (replicate k ''..'' @ (names @ [name])) =
        Inr ((butlast ^^ k) (start_of w dir) @ (names @ [name]))"
    by (rule walk_normal [OF refl]) (use kn n st d dk in auto)
  then have "walk (root w) (start_of w ?p) (clean_elems ?p) = Inr (d @ [name])"
    using so ce kn dk by simp
  moreover have "resolve w (filepath_Clean ?p) = walk (root w) (start_of w ?p) (clean_elems ?p)"
    using walk_clean_elems [of ?p w] ce st so by simp
  ultimately show ?thesis using ne by (simp add: filepath_Join_def)
qed

text \<open>Removal only removes.\<close>

lemma is_dir_at_alter_remove:
  assumes "is_dir_at (alter p (\<lambda>x. None) t) q"
  shows "is_dir_at t q"
proof (cases "p = [] \<or> \<not> is_dir_at t (butlast p)")
  case True
  with assms show ?thesis by (cases "p = []") (auto simp: alter_no_parent)
next
  case False
  then have p: "p \<noteq> []" "is_dir_at t (butlast p)" by auto
  show ?thesis
  proof (cases "prefix p q")
    case True
    then obtain r where "q = p @ r" by (auto simp: prefix_def)
    with assms lookup_alter_at [OF p, of "\<lambda>x. None" r] show ?thesis
      by (simp add: is_dir_at_def)
  next
    case False
    show ?thesis
    proof (cases "prefix q p")
      case True
      with False have "strict_prefix q p" by (auto simp: strict_prefix_def)
      with assms show ?thesis by (simp add: is_dir_at_alter_above)
    next
      case nq: False
      with False assms show ?thesis by (simp add: is_dir_at_def lookup_alter_other)
    qed
  qed
qed

lemma is_dir_at_alter_keep:
  assumes "is_dir_at t q" "\<not> prefix p q"
  shows "is_dir_at (alter p f t) q"
proof (cases "prefix q p")
  case True
  with assms(2) have "strict_prefix q p" by (auto simp: strict_prefix_def)
  with assms(1) show ?thesis by (simp add: is_dir_at_alter_above)
next
  case False
  with assms show ?thesis by (simp add: is_dir_at_def lookup_alter_other)
qed

lemma resolve_cong:
  "root w' = root w \<Longrightarrow> cwd w' = cwd w \<Longrightarrow> resolve w' name = resolve w name"
  by (simp add: resolve_def start_of_def)

lemma os_Remove_success:
  assumes "os_Remove name w = (None, w')"
  shows "\<exists>p. resolve w name = Inr p \<and> p \<noteq> [] \<and> lookup (root w) p \<noteq> None \<and>
             w' = w\<lparr>root := alter p (\<lambda>x. None) (root w)\<rparr>"
  using assms
  by (auto simp: os_Remove_def locate_def split: sum.splits option.splits node.splits list.splits if_splits)

lemma os_Remove_result:
  assumes "os_Remove name w = (r, w')"
  shows "w' = w \<or> (\<exists>p. w' = w\<lparr>root := alter p (\<lambda>x. None) (root w)\<rparr>)"
  using assms
  by (auto simp: os_Remove_def locate_def split: sum.splits option.splits node.splits list.splits if_splits)

lemma os_RemoveAll_result:
  assumes "os_RemoveAll name w = (r, w')"
  shows "w' = w \<or> (\<exists>p. w' = w\<lparr>root := alter p (\<lambda>x. None) (root w)\<rparr>)"
  using assms
  by (auto simp: os_RemoveAll_def split: sum.splits option.splits if_splits)

lemma os_RemoveAll_success:
  assumes "os_RemoveAll name w = (None, w')" "resolve w name = Inr p"
  shows "p \<noteq> [] \<and> w' = w\<lparr>root := alter p (\<lambda>x. None) (root w)\<rparr>"
  using assms
  by (auto simp: os_RemoveAll_def split: sum.splits option.splits if_splits)

lemma removal_of_refl [simp]: "removal_of w w"
  by (auto simp: removal_of_def intro: exI[of _ "root w"])

lemma removal_of_trans:
  assumes "removal_of w w1" "removal_of w1 w2"
  shows "removal_of w w2"
proof -
  from assms obtain t1 t2 where "w1 = w\<lparr>root := t1\<rparr>" "w2 = w1\<lparr>root := t2\<rparr>"
    unfolding removal_of_def by blast
  then have "w2 = w\<lparr>root := t2\<rparr>" by simp
  then have "\<exists>t. w2 = w\<lparr>root := t\<rparr>" ..
  moreover have "\<forall>q. is_dir_at (root w2) q \<longrightarrow> is_dir_at (root w) q"
    using assms unfolding removal_of_def by blast
  moreover have "is_dir_at (root w) [] \<longrightarrow> is_dir_at (root w2) []"
    using assms unfolding removal_of_def by blast
  ultimately show ?thesis unfolding removal_of_def by blast
qed

lemma is_dir_at_alter_root: "is_dir_at t [] \<Longrightarrow> is_dir_at (alter p f t) []"
  by (cases "p = []") (auto simp: is_dir_at_alter_above strict_prefix_def)

lemma removal_of_alter: "removal_of w (w\<lparr>root := alter p (\<lambda>x. None) (root w)\<rparr>)"
  by (auto simp: removal_of_def is_dir_at_alter_root dest: is_dir_at_alter_remove)

lemma remove_loop_removal: "remove_loop dir files w = (r, w') \<Longrightarrow> removal_of w w'"
proof (induction files arbitrary: w)
  case Nil
  then show ?case by simp
next
  case (Cons f files)
  obtain name isDir where f: "f = (name, isDir)" by (cases f)
  obtain r1 w1 where step:
    "(if isDir then os_RemoveAll (path_Join dir name) w else os_Remove (path_Join dir name) w) = (r1, w1)"
    by (cases "if isDir then os_RemoveAll (path_Join dir name) w else os_Remove (path_Join dir name) w")
  then have r1: "removal_of w w1"
    using os_Remove_result [of "path_Join dir name" w r1 w1]
      os_RemoveAll_result [of "path_Join dir name" w r1 w1]
    by (auto simp: removal_of_alter split: if_splits)
  show ?case
  proof (cases r1)
    case None
    with Cons.prems f step have "remove_loop dir files w1 = (r, w')"
      by (auto simp: Let_def split: if_splits)
    from Cons.IH [OF this] r1 show ?thesis by (rule removal_of_trans [rotated])
  next
    case (Some e)
    with Cons.prems f step have "w' = w1" by (auto simp: Let_def split: if_splits)
    with r1 show ?thesis by simp
  qed
qed

lemma remove_loop_exact:
  assumes "remove_loop dir files w = (None, w')"
    and "dir \<noteq> []" "d = lexical (start_of w dir) (clean_elems dir)"
    and "is_dir_at (root w) d"
    and "\<forall>f\<in>set files. real_name (fst f)"
    and "is_dir_at (root w') (start_of w dir)"
  shows "w' = w\<lparr>root := fold (\<lambda>f. alter (d @ [fst f]) (\<lambda>x. None)) files (root w)\<rparr>"
  using assms
proof (induction files arbitrary: w)
  case Nil
  then show ?case by simp
next
  case (Cons f files)
  obtain name isDir where f: "f = (name, isDir)" by (cases f)
  let ?fp = "path_Join dir name"
  obtain r1 w1 where step:
    "(if isDir then os_RemoveAll ?fp w else os_Remove ?fp w) = (r1, w1)"
    by (cases "if isDir then os_RemoveAll ?fp w else os_Remove ?fp w")
  with Cons.prems(1) f have r1: "r1 = None" and rest: "remove_loop dir files w1 = (None, w')"
    by (auto simp: Let_def split: if_splits option.splits)
  have rem1: "removal_of w w1"
    using step os_Remove_result [of ?fp w r1 w1] os_RemoveAll_result [of ?fp w r1 w1]
    by (auto simp: removal_of_alter split: if_splits)
  have rem2: "removal_of w1 w'" using rest by (rule remove_loop_removal)
  from rem1 have so1: "start_of w1 dir = start_of w dir"
    by (auto simp: removal_of_def start_of_def)
  have st1: "is_dir_at (root w1) (start_of w dir)"
    using rem2 Cons.prems(6) by (auto simp: removal_of_def)
  then have st: "is_dir_at (root w) (start_of w dir)"
    using rem1 by (auto simp: removal_of_def)
  have rn: "real_name name" using Cons.prems(5) f by simp
  have res: "resolve w ?fp = Inr (d @ [name])"
    unfolding path_Join_def
    by (rule resolve_Join_lexical [OF Cons.prems(2) st Cons.prems(3) Cons.prems(4) rn])
  have w1: "w1 = w\<lparr>root := alter (d @ [name]) (\<lambda>x. None) (root w)\<rparr>"
  proof (cases isDir)
    case True
    with step r1 res show ?thesis by (auto dest: os_RemoveAll_success)
  next
    case False
    with step r1 res show ?thesis by (auto dest!: os_Remove_success)
  qed
  have d1: "is_dir_at (root w1) d"
    unfolding w1 using Cons.prems(4) by (simp add: is_dir_at_alter_keep)
  have "w' = w1\<lparr>root := fold (\<lambda>f. alter (d @ [fst f]) (\<lambda>x. None)) files (root w1)\<rparr>"
    by (rule Cons.IH [OF rest Cons.prems(2)])
       (use Cons.prems so1 d1 in auto)
  then show ?case using f by (simp add: w1)
qed

subsection \<open>Preparing the directory\<close>

lemma wf_node_lookup: "wf_node t \<Longrightarrow> lookup t p = Some n \<Longrightarrow> wf_node n"
proof (induction t p rule: lookup.induct)
  case (1 n')
  then show ?case by simp
next
  case (2 b c p)
  then show ?case by simp
next
  case (3 es c p)
  from 3(3) obtain m where m: "map_of es c = Some m" "lookup m p = Some n"
    by (auto split: option.splits)
  then have "(c, m) \<in> set es" by (auto dest: map_of_SomeD)
  with 3(2) have "wf_node m" by (auto simp: list_all_iff)
  with 3(1) m show ?case by simp
qed

lemma wf_node_names:
  assumes "wf_node t" "lookup t p = Some (Directory es)" "e \<in> set es"
  shows "real_name (fst e)"
proof -
  have "wf_node (Directory es)" using assms(1,2) by (rule wf_node_lookup)
  with assms(3) show ?thesis by (auto simp: list_all_iff)
qed

lemma lookup_alter_parent:
  "lookup t d = Some (Directory es) \<Longrightarrow>
   lookup (alter (d @ [c]) f t) d =
     Some (case f (map_of es c) of None \<Rightarrow> Directory (AList.delete c es)
           | Some v \<Rightarrow> Directory (AList.update c v es))"
proof (induction d arbitrary: t)
  case Nil
  then show ?case by (auto split: option.splits)
next
  case (Cons x d)
  from Cons.prems obtain es0 n where t: "t = Directory es0" "map_of es0 x = Some n"
    "lookup n d = Some (Directory es)"
    by (cases t) (auto split: option.splits)
  obtain y p where yp: "d @ [c] = y # p" by (cases "d @ [c]") auto
  have "alter ((x # d) @ [c]) f t = Directory (AList.update x (alter (d @ [c]) f n) es0)"
    using t yp by simp
  then show ?case using Cons.IH [OF t(3)] by (simp add: map_of_update_if)
qed

lemma fold_alter_remove_parent:
  "lookup t d = Some (Directory es) \<Longrightarrow>
   lookup (fold (\<lambda>f. alter (d @ [fst f]) (\<lambda>x. None)) files t) d =
     Some (Directory (filter (\<lambda>e. fst e \<notin> fst ` set files) es))"
proof (induction files arbitrary: t es)
  case Nil
  then show ?case by simp
next
  case (Cons f files)
  have "lookup (alter (d @ [fst f]) (\<lambda>x. None) t) d = Some (Directory (AList.delete (fst f) es))"
    using lookup_alter_parent [OF Cons.prems, of "fst f" "\<lambda>x. None"] by simp
  from Cons.IH [OF this] show ?case
    by (simp add: AList.delete_eq) (rule filter_cong, auto)
qed

lemma fold_alter_other:
  "\<not> prefix d q \<Longrightarrow> \<not> prefix q d \<Longrightarrow>
   lookup (fold (\<lambda>f. alter (d @ [fst f]) g) files t) q = lookup t q"
proof (induction files arbitrary: t)
  case Nil
  then show ?case by simp
next
  case (Cons f files)
  have a: "\<not> prefix (d @ [fst f]) q" using Cons.prems(1) by (auto simp: prefix_def)
  have b: "\<not> prefix q (d @ [fst f])" using Cons.prems by (auto simp: prefix_snoc)
  show ?case using Cons.IH [OF Cons.prems] a b by (simp add: lookup_alter_other)
qed

lemma walk_end:
  "walk t cur cs = Inr q \<Longrightarrow> cs \<noteq> [] \<Longrightarrow> is_dir_at t q \<or> (q \<noteq> [] \<and> is_dir_at t (butlast q))"
proof (induction cs arbitrary: cur)
  case Nil
  then show ?case by simp
next
  case (Cons c cs)
  from Cons.prems(1) have d: "is_dir_at t cur"
    by (rule walk_start_dir) simp
  show ?case
  proof (cases "cs = []")
    case True
    with Cons.prems(1) d is_dir_at_butlast [OF d] show ?thesis
      by (auto simp: is_dir_at_def split: option.splits node.splits if_splits)
  next
    case False
    with Cons.prems(1) Cons.IH show ?thesis
      by (auto split: option.splits node.splits if_splits)
  qed
qed

lemma split_path_slashes: "split_path (replicate m (CHR ''/'')) = replicate (Suc m) []"
  by (induction m) auto

lemma split_path_trailing:
  "split_path (s @ replicate m (CHR ''/'')) = split_path s @ replicate m []"
proof (cases m)
  case 0
  then show ?thesis by simp
next
  case (Suc k)
  then have "s @ replicate m (CHR ''/'') = s @ CHR ''/'' # replicate k (CHR ''/'')" by simp
  then show ?thesis using Suc by (simp only: split_path_append split_path_slashes)
qed

lemma foldl_clean_step_empty: "foldl (clean_step r) acc (replicate m []) = acc"
  by (induction m) (auto simp: clean_step_def)

lemma trim_slashes_decomp:
  "\<exists>m. name = trim_slashes name @ replicate m (CHR ''/'')"
proof (cases "rev (dropWhile (\<lambda>c. c = CHR ''/'') (rev name)) = []")
  case True
  have "trim_slashes name = name"
    by (simp only: trim_slashes_def Let_def True simp_thms if_True)
  then show ?thesis by (intro exI [of _ 0]) simp
next
  case False
  let ?tw = "takeWhile (\<lambda>c. c = CHR ''/'') (rev name)"
  have t: "trim_slashes name = rev (dropWhile (\<lambda>c. c = CHR ''/'') (rev name))"
    by (simp only: trim_slashes_def Let_def False if_False)
  have "\<forall>y\<in>set ?tw. y = CHR ''/''" by (auto dest: set_takeWhileD)
  then have r: "replicate (length ?tw) (CHR ''/'') = ?tw" by (rule replicate_length_same)
  have "rev name = ?tw @ dropWhile (\<lambda>c. c = CHR ''/'') (rev name)" by simp
  then have "name = rev (dropWhile (\<lambda>c. c = CHR ''/'') (rev name)) @ rev ?tw"
    by (metis rev_append rev_rev_ident)
  also have "rev ?tw = replicate (length ?tw) (CHR ''/'')"
    using r by (metis rev_replicate)
  finally show ?thesis using t by (intro exI [of _ "length ?tw"]) simp
qed

lemma trim_slashes_props:
  "clean_elems (trim_slashes name) = clean_elems name"
  "hd (trim_slashes name) = hd name"
  "(trim_slashes name = []) = (name = [])"
proof -
  obtain m where m: "name = trim_slashes name @ replicate m (CHR ''/'')"
    using trim_slashes_decomp by blast
  show e: "(trim_slashes name = []) = (name = [])"
  proof (cases "rev (dropWhile (\<lambda>c. c = CHR ''/'') (rev name)) = []")
    case True
    have "trim_slashes name = name"
      by (simp only: trim_slashes_def Let_def True simp_thms if_True)
    then show ?thesis by simp
  next
    case False
    have t: "trim_slashes name = rev (dropWhile (\<lambda>c. c = CHR ''/'') (rev name))"
      by (simp only: trim_slashes_def Let_def False if_False)
    from False have "name \<noteq> []" by auto
    with t False show ?thesis by simp
  qed
  show h: "hd (trim_slashes name) = hd name"
  proof (cases "trim_slashes name = []")
    case True
    with e show ?thesis by simp
  next
    case False
    then show ?thesis using m by (metis hd_append2)
  qed
  have "clean_elems name =
        foldl (clean_step (hd name = CHR ''/'')) [] (split_path (trim_slashes name) @ replicate m [])"
    unfolding clean_elems_def using m split_path_trailing [of "trim_slashes name" m] by simp
  then show "clean_elems (trim_slashes name) = clean_elems name"
    by (simp add: clean_elems_def h foldl_clean_step_empty)
qed

lemma target_of_trim: "target_of w (trim_slashes name) = target_of w name"
  by (simp add: target_of_def start_of_def trim_slashes_props)

lemma resolve_target: "resolve w p = Inr d \<Longrightarrow> d = target_of w p"
  by (drule resolve_lexical) (simp add: target_of_def)

lemma os_Mkdir_success:
  assumes "os_Mkdir name w = (None, w')"
  shows "lookup (root w) (target_of w name) = None \<and> target_of w name \<noteq> [] \<and>
         is_dir_at (root w) (butlast (target_of w name)) \<and>
         w' = w\<lparr>root := alter (target_of w name) (\<lambda>x. Some (Directory [])) (root w)\<rparr>"
proof -
  from assms obtain d where d: "resolve w (trim_slashes name) = Inr d" "lookup (root w) d = None"
    "w' = w\<lparr>root := alter d (\<lambda>x. Some (Directory [])) (root w)\<rparr>"
    by (auto simp: os_Mkdir_def locate_def split: sum.splits option.splits)
  from d(1) have "walk (root w) (start_of w (trim_slashes name)) (split_path (trim_slashes name)) = Inr d"
    by (auto simp: resolve_def split: if_splits)
  from walk_end [OF this] d(2) have "d \<noteq> [] \<and> is_dir_at (root w) (butlast d)"
    by (auto simp: is_dir_at_def)
  moreover have "d = target_of w name"
    using resolve_target [OF d(1)] by (simp add: target_of_trim)
  ultimately show ?thesis using d by auto
qed

lemma ioutil_ReadDir_success:
  assumes "ioutil_ReadDir name w = Inr files"
  shows "\<exists>d es. resolve w name = Inr d \<and> lookup (root w) d = Some (Directory es) \<and>
                fst ` set files = fst ` set es"
proof -
  from assms obtain d es where d: "resolve w name = Inr d" "lookup (root w) d = Some (Directory es)"
    "files = sort_key fst (map (\<lambda>(n, x). (n, is_Directory x)) es)"
    by (auto simp: ioutil_ReadDir_def locate_def split: sum.splits option.splits node.splits)
  have "fst ` set files = fst ` set es"
    unfolding d(3) by (force simp: image_iff)
  with d show ?thesis by auto
qed

text \<open>What a successful preparation leaves.\<close>

lemma prepare_directory_success:
  assumes prep: "prepare_directory u w = (None, w')"
    and wf: "wf_node (root w)"
    and cw: "is_dir_at (root w') (cwd w)"
    and d: "d = target_of w (directory u)"
  shows "(lookup (root w) d = None \<or> is_dir_at (root w) d) \<and>
         lookup (root w') d = Some (Directory []) \<and>
         (\<forall>q. \<not> prefix d q \<and> \<not> prefix q d \<longrightarrow> lookup (root w') q = lookup (root w) q) \<and>
         cwd w' = cwd w \<and> fault w' = fault w \<and> zip_directory w' = zip_directory w \<and>
         handles w' = handles w"
proof (cases "os_IsNotExist (case os_Stat (directory u) w of Inl e \<Rightarrow> Some e | Inr info \<Rightarrow> None)")
  case True
  let ?w1 = "emit (Println [''Directory doesn't exist, creating one'']) w"
  from True prep have "os_Mkdir (directory u) ?w1 = (None, w')"
    by (simp add: prepare_directory_def)
  from os_Mkdir_success [OF this]
  have m: "lookup (root w) d = None" "d \<noteq> []" "is_dir_at (root w) (butlast d)"
    "w' = ?w1\<lparr>root := alter d (\<lambda>x. Some (Directory [])) (root w)\<rparr>"
    by (auto simp: d target_of_def start_of_def)
  have "lookup (root w') d = Some (Directory [])"
    using lookup_alter_at [OF m(2,3), of "\<lambda>x. Some (Directory [])" "[]"] m(1,4) by simp
  moreover have "\<forall>q. \<not> prefix d q \<and> \<not> prefix q d \<longrightarrow> lookup (root w') q = lookup (root w) q"
    using m(4) by (simp add: lookup_alter_other)
  ultimately show ?thesis using m by auto
next
  case False
  let ?w1 = "emit (Println [''Removing catalog contents'']) w"
  from False prep obtain files where files: "ioutil_ReadDir (directory u) ?w1 = Inr files"
    and loop: "remove_loop (directory u) files ?w1 = (None, w')"
    by (auto simp: prepare_directory_def Let_def split: sum.splits)
  from ioutil_ReadDir_success [OF files] obtain d' es where d':
    "resolve w (directory u) = Inr d'" "lookup (root w) d' = Some (Directory es)"
    "fst ` set files = fst ` set es"
    by (auto simp: resolve_cong [of "emit x w" w for x])
  from resolve_target [OF d'(1)] d have dd': "d' = d" by simp
  note d' = d' [unfolded dd']
  from resolve_lexical [OF d'(1)] have ne: "directory u \<noteq> []"
    and st: "is_dir_at (root w) (start_of w (directory u))"
    and dl: "d = lexical (start_of w (directory u)) (clean_elems (directory u))" by auto
  have dd: "is_dir_at (root w) d" using d'(2) by (simp add: is_dir_at_def)
  have rn: "\<forall>f\<in>set files. real_name (fst f)"
  proof
    fix f assume "f \<in> set files"
    then have "fst f \<in> fst ` set es" using d'(3) by auto
    then obtain e where "e \<in> set es" "fst e = fst f" by auto
    with wf_node_names [OF wf d'(2)] show "real_name (fst f)" by metis
  qed
  have rem: "removal_of ?w1 w'" using loop by (rule remove_loop_removal)
  then obtain t where t: "w' = ?w1\<lparr>root := t\<rparr>" by (auto simp: removal_of_def)
  have st': "is_dir_at (root w') (start_of ?w1 (directory u))"
  proof (cases "hd (directory u) = CHR ''/''")
    case True
    with st rem show ?thesis by (simp add: start_of_def removal_of_def)
  next
    case False
    with cw show ?thesis by (simp add: start_of_def)
  qed
  have ex: "w' = ?w1\<lparr>root := fold (\<lambda>f. alter (d @ [fst f]) (\<lambda>x. None)) files (root ?w1)\<rparr>"
    by (rule remove_loop_exact [OF loop ne _ _ rn st'])
       (use dl dd in \<open>auto simp: start_of_def\<close>)
  have "lookup (root w') d = Some (Directory (filter (\<lambda>e. fst e \<notin> fst ` set files) es))"
    using fold_alter_remove_parent [OF d'(2), of files] ex by simp
  moreover have "filter (\<lambda>e. fst e \<notin> fst ` set files) es = []"
    using d'(3) by (auto simp: filter_empty_conv)
  ultimately have e: "lookup (root w') d = Some (Directory [])" by simp
  have o: "\<forall>q. \<not> prefix d q \<and> \<not> prefix q d \<longrightarrow> lookup (root w') q = lookup (root w) q"
    using ex by (simp add: fold_alter_other)
  show ?thesis using dd e o ex by auto
qed

subsection \<open>The download\<close>










subsection \<open>The directory after a successful run\<close>

text \<open>What no step of \<^verbatim>\<open>unzip\<close> changes.\<close>

lemma same_place_refl [simp]: "same_place w w"
  by (simp add: same_place_def)

lemma same_place_trans: "same_place w w1 \<Longrightarrow> same_place w1 w2 \<Longrightarrow> same_place w w2"
  by (simp add: same_place_def)

lemma same_place_root [simp]: "same_place w (w\<lparr>root := t\<rparr>)"
  by (simp add: same_place_def)

lemma same_place_handles [simp]: "same_place w (w\<lparr>handles := h\<rparr>)"
  by (simp add: same_place_def)

lemma same_place_Close: "same_place w w' \<Longrightarrow> same_place w (Close h w')"
  by (simp add: same_place_def Close_def)

lemma same_place_acquire: "same_place w w' \<Longrightarrow> same_place w (acquire h w')"
  by (simp add: same_place_def acquire_def)

lemma os_MkdirAll_same_place: "os_MkdirAll name w = (r, w') \<Longrightarrow> same_place w w'"
  by (auto simp: os_MkdirAll_def split: if_splits option.splits node.splits prod.splits)

lemma os_OpenFile_same_place: "os_OpenFile name perm w = (r, w') \<Longrightarrow> same_place w w'"
  by (auto simp: os_OpenFile_def same_place_def acquire_def split: sum.splits option.splits node.splits)

lemma zipFile_Open_same_place: "zipFile_Open f w = (r, w') \<Longrightarrow> same_place w w'"
  by (auto simp: zipFile_Open_def same_place_def acquire_def split: sum.splits)

lemma io_Copy_same_place: "io_Copy h src w = (r, w') \<Longrightarrow> same_place w w'"
  by (cases h; cases src) (auto split: option.splits)

lemma unzip_loop_same_place:
  "unzip_loop dest fs names w = (r, w') \<Longrightarrow> same_place w w'"
proof (induction fs arbitrary: names w)
  case Nil
  then show ?case by simp
next
  case (Cons f fs)
  let ?fp = "filepath_Join dest (zName f)"
  show ?case
  proof (cases "strings_HasPrefix ?fp (filepath_Clean dest @ [os_PathSeparator])")
    case False
    with Cons.prems show ?thesis by (simp add: Let_def)
  next
    case legal: True
    show ?thesis
    proof (cases "IsDir f")
      case True
      obtain i w1 where m: "os_MkdirAll ?fp w = (i, w1)" by (cases "os_MkdirAll ?fp w")
      with Cons.prems legal True have "unzip_loop dest fs (names @ [?fp]) w1 = (r, w')"
        by (simp add: Let_def)
      from Cons.IH [OF this] os_MkdirAll_same_place [OF m] show ?thesis
        by (rule same_place_trans [rotated])
    next
      case False
      obtain e1 w1 where m: "os_MkdirAll (filepath_Dir ?fp) w = (e1, w1)"
        by (cases "os_MkdirAll (filepath_Dir ?fp) w")
      note s1 = os_MkdirAll_same_place [OF m]
      show ?thesis
      proof (cases e1)
        case (Some e)
        with Cons.prems legal False m s1 show ?thesis by (simp add: Let_def)
      next
        case None
        obtain o2 w2 where op: "os_OpenFile ?fp (Mode f) w1 = (o2, w2)"
          by (cases "os_OpenFile ?fp (Mode f) w1")
        note s2 = same_place_trans [OF s1 os_OpenFile_same_place [OF op]]
        show ?thesis
        proof (cases o2)
          case (Inl e)
          with Cons.prems legal False m None op s2 show ?thesis by (simp add: Let_def)
        next
          case (Inr outFile)
          obtain o3 w3 where zo: "zipFile_Open f w2 = (o3, w3)" by (cases "zipFile_Open f w2")
          note s3 = same_place_trans [OF s2 zipFile_Open_same_place [OF zo]]
          show ?thesis
          proof (cases o3)
            case (Inl e)
            with Cons.prems legal False m None op Inr zo s3 show ?thesis by (simp add: Let_def)
          next
            case rc: (Inr rcsrc)
            obtain rc src where rcsrc: "rcsrc = (rc, src)" by (cases rcsrc)
            obtain e4 w4 where cp: "io_Copy outFile src w3 = (e4, w4)"
              by (cases "io_Copy outFile src w3")
            note s4 = same_place_trans [OF s3 io_Copy_same_place [OF cp]]
            have s5: "same_place w (Close rc (Close outFile w4))"
              using s4 by (intro same_place_Close)
            show ?thesis
            proof (cases e4)
              case (Some e)
              with Cons.prems legal False m None op Inr zo rc rcsrc cp s5 show ?thesis
                by (simp add: Let_def)
            next
              case n4: None
              with Cons.prems legal False m None op Inr zo rc rcsrc cp
              have "unzip_loop dest fs (names @ [?fp]) (Close rc (Close outFile w4)) = (r, w')"
                by (simp add: Let_def)
              from Cons.IH [OF this] s5 show ?thesis by (rule same_place_trans [rotated])
            qed
          qed
        qed
      qed
    qed
  qed
qed

lemma zip_OpenReader_success:
  assumes "zip_OpenReader name w = (Inr (r, files), w')"
  shows "\<exists>p bs. resolve w name = Inr p \<and> lookup (root w) p = Some (RegularFile bs) \<and>
                zip_directory w bs = Inr files \<and> r = ZipHandle p \<and> w' = acquire r w"
  using assms
  by (auto simp: zip_OpenReader_def locate_def split: sum.splits option.splits node.splits)

lemma unzip_success:
  assumes "unzip src dest w = ((names, None), w')"
  shows "\<exists>p bs. resolve w src = Inr p \<and> lookup (root w) p = Some (RegularFile bs) \<and>
                same_place w w'"
proof -
  obtain o1 w1 where o: "zip_OpenReader src w = (o1, w1)" by (cases "zip_OpenReader src w")
  with assms obtain r files where o1: "o1 = Inr (r, files)"
    by (cases o1) (auto simp: unzip_def)
  obtain res w2 where l: "unzip_loop dest files [] w1 = (res, w2)"
    by (cases "unzip_loop dest files [] w1")
  with assms o o1 have w': "w' = Close r w2" by (simp add: unzip_def)
  from zip_OpenReader_success [OF o [unfolded o1]] obtain p bs where
    p: "resolve w src = Inr p" "lookup (root w) p = Some (RegularFile bs)" "w1 = acquire r w"
    by auto
  have "same_place w w1" using p(3) by (simp add: same_place_acquire)
  with unzip_loop_same_place [OF l] have "same_place w (Close r w2)"
    by (intro same_place_Close) (rule same_place_trans)
  with p w' show ?thesis by auto
qed


lemma announce_fields [simp]:
  "root (announce a w) = root w" "cwd (announce a w) = cwd w"
  by (simp_all add: announce_def split: prod.splits)

subsection \<open>A run on the example world\<close>

lemma ex_paths:
  "filepath_Join ''sherpa4selfie'' ''old.txt'' = ''sherpa4selfie/old.txt''"
  "filepath_Join ''sherpa4selfie'' ''sub'' = ''sherpa4selfie/sub''"
  "filepath_Join ''sherpa4selfie'' ''foo.txt'' = ''sherpa4selfie/foo.txt''"
  "filepath_Join ''sherpa4selfie'' ''bar/'' = ''sherpa4selfie/bar''"
  "filepath_Join ''sherpa4selfie'' ''bar/baz.txt'' = ''sherpa4selfie/bar/baz.txt''"
  "filepath_Clean ''sherpa4selfie'' = ''sherpa4selfie''"
  "filepath_Dir ''sherpa4selfie/foo.txt'' = ''sherpa4selfie''"
  "filepath_Dir ''sherpa4selfie/bar/baz.txt'' = ''sherpa4selfie/bar''"
  by (simp_all add: path_eval)

lemma sorted_example:
  "sort_key fst [(''old.txt'', False), (''sub'', True)] = [(''old.txt'', False), (''sub'', True)]"
  by (simp add: less_eq_char_def)

lemma ex_download:
  "DownloadFile example_updater ''https://dl/1'' ''dist.zip''
     (example_world example_tree c example_archive\<lparr>stdout := out\<rparr>) =
   (Returned None,
    example_world example_tree c example_archive
      \<lparr>root := downloaded_tree,
       requests := [\<lparr>Method = ''GET'', RequestURL = ''https://dl/1'',
                      Header = [(''Authorization'', ''Bearer tok'')]\<rparr>],
       stdout := out\<rparr>)"
  by (simp add: DownloadFile_def http_NewRequest_def client_Do_def example_transport_def
       example_updater_def os_eval app_tree_def example_tree_def example_world_def
       downloaded_tree_def)

lemma ex_prepare:
  "prepare_directory example_updater
     (example_world example_tree c example_archive\<lparr>root := downloaded_tree, requests := rq, stdout := out\<rparr>) =
   (None,
    example_world example_tree c example_archive
      \<lparr>root := app_tree [(''sherpa4selfie'', Directory []), (''dist.zip'', RegularFile ''ZIP'')],
       requests := rq,
       stdout := out @ [Println [''Removing catalog contents'']]\<rparr>)"
  by (simp add: prepare_directory_def example_updater_def os_eval app_tree_def
       example_world_def downloaded_tree_def sorted_example ex_paths path_Join_def emit_def)

lemma ex_unzip:
  "unzip ''dist.zip'' ''sherpa4selfie''
     (example_world example_tree c example_archive
      \<lparr>root := app_tree [(''sherpa4selfie'', Directory []), (''dist.zip'', RegularFile ''ZIP'')],
       requests := rq, stdout := out\<rparr>) =
   (([''sherpa4selfie/foo.txt'', ''sherpa4selfie/bar'', ''sherpa4selfie/bar/baz.txt''], None),
    example_world example_tree c example_archive
      \<lparr>root := app_tree [(''sherpa4selfie'',
                  Directory [(''foo.txt'', RegularFile ''abcd''),
                             (''bar'', Directory [(''baz.txt'', RegularFile [])])]),
                 (''dist.zip'', RegularFile ''ZIP'')],
       requests := rq, stdout := out\<rparr>)"
  by (simp add: unzip_def example_archive_def os_eval app_tree_def
       example_world_def ex_paths strings_HasPrefix_def os_PathSeparator_def)

lemma ex_remove:
  "os_Remove ''dist.zip''
     (example_world example_tree c example_archive
      \<lparr>root := app_tree [(''sherpa4selfie'',
                  Directory [(''foo.txt'', RegularFile ''abcd''),
                             (''bar'', Directory [(''baz.txt'', RegularFile [])])]),
                 (''dist.zip'', RegularFile ''ZIP'')],
       requests := rq, stdout := out\<rparr>) =
   (None,
    example_world example_tree c example_archive
      \<lparr>root := replaced_tree, requests := rq, stdout := out\<rparr>)"
  by (simp add: os_eval app_tree_def example_world_def replaced_tree_def)

lemma ex_announce:
  "announce (example_artifact False ''https://dl/1'') (example_world t c z) =
   example_world t c z
     \<lparr>stdout := [Printf (''Downloading artifact archive `%s` (%.2f %s) created at %s'' @ [CHR 0x0A])
                    [S ''sherpa4selfie'', F (3 / 2), S ''kilobytes'', S ''2020-01-01''],
                 Printf (''Artifact location URL: %s'' @ [CHR 0x0A]) [S ''https://dl/1''],
                 Println [''Please be patient ...'']]\<rparr>"
  by (simp add: announce_def Size_def example_artifact_def float64_of_int_exact emit_def
        example_world_def)

lemma ex_run:
  "DownloadAndReplace example_updater (example_artifact False ''https://dl/1'')
     (example_world example_tree c example_archive) =
   (Returned None,
    example_world example_tree c example_archive
      \<lparr>root := replaced_tree,
       requests := [\<lparr>Method = ''GET'', RequestURL = ''https://dl/1'',
                      Header = [(''Authorization'', ''Bearer tok'')]\<rparr>],
       stdout := [Printf (''Downloading artifact archive `%s` (%.2f %s) created at %s'' @ [CHR 0x0A])
                    [S ''sherpa4selfie'', F (3 / 2), S ''kilobytes'', S ''2020-01-01''],
                  Printf (''Artifact location URL: %s'' @ [CHR 0x0A]) [S ''https://dl/1''],
                  Println [''Please be patient ...''],
                  Println [''Removing catalog contents''],
                  Println [''Extracting archive contents''],
                  Println [''Removing archive'']]\<rparr>)"
proof -
  have u: "directory example_updater = ''sherpa4selfie''" by (simp add: example_updater_def)
  have a: "ArchiveDownloadURL (example_artifact False ''https://dl/1'') = ''https://dl/1''"
    by (simp add: example_artifact_def)
  show ?thesis
    unfolding DownloadAndReplace_def ex_announce a
    by (simp add: ex_download ex_prepare extract_and_remove_def u emit_def ex_unzip ex_remove)
qed


subsection \<open>Cleaned paths written out\<close>





text \<open>Cleaning a normal list changes nothing.\<close>

lemma not_real_dotdot [simp]: "\<not> real_name ''..''"
  by (simp add: real_name_def)





subsection \<open>What \<^verbatim>\<open>os.MkdirAll\<close> changes\<close>

lemma beside_refl [simp]: "beside d t t"
  by (simp add: beside_def)









subsection \<open>What the check of \<^verbatim>\<open>unzip\<close> lets through\<close>

lemma clean_elems_append:
  assumes "dest \<noteq> []"
  shows "clean_elems (dest @ CHR ''/'' # n) =
         foldl (clean_step (hd dest = CHR ''/'')) (clean_elems dest) (split_path n)"
proof -
  have "hd (dest @ CHR ''/'' # n) = hd dest" using assms by (cases dest) auto
  then show ?thesis by (simp add: clean_elems_def split_path_append)
qed











subsection \<open>\<^verbatim>\<open>unzip\<close> changes nothing beside its destination\<close>











subsection \<open>The preparation changes nothing beside the directory\<close>













subsection \<open>\<^verbatim>\<open>unzip\<close>: the guard against paths that leave the destination\<close>




subsection \<open>Runs of \<^verbatim>\<open>DownloadAndReplace\<close> on example worlds\<close>

lemmas run_eval = DownloadAndReplace_def example_artifact_def
       DownloadFile_def http_NewRequest_def client_Do_def example_transport_def
       example_updater_def os_eval app_tree_def example_tree_def example_world_def
       prepare_directory_def path_Join_def emit_def
       extract_and_remove_def unzip_def path_eval
       announce_def Size_def float64_of_int_exact less_eq_char_def

text \<open>
  Claim C5 has the catalogue directory hold exactly the entries of the archive after a
  successful run.  Here the directory exists and no directory can be made in it; the
  archive has the single entry \<^verbatim>\<open>d/\<close>.  The result of \<^verbatim>\<open>os.MkdirAll\<close> for a directory
  entry is dropped (the defect of claim C4), so the run succeeds: it returns no error, the
  old contents and the archive are removed, and the directory is left empty, without
  \<^verbatim>\<open>d\<close>.
\<close>

theorem DownloadAndReplace_misses_directory:
  "fst (DownloadAndReplace example_updater (example_artifact False ''https://dl/1'')
          unwritable_world) = Returned None \<and>
   root (snd (DownloadAndReplace example_updater (example_artifact False ''https://dl/1'')
          unwritable_world)) = app_tree [(''sherpa4selfie'', Directory [])]"
  by (simp add: run_eval unwritable_world_def directory_archive_def)

subsection \<open>The archive \<^verbatim>\<open>dist.zip\<close> after a run\<close>




end
